theory Spec2Isabelle
  imports Main "HOL-Library.Sublist" "HOL-Library.Multiset"
begin

section \<open>chart-sentry: the diff domain, its aggregation and its reports\<close>

text \<open>
  A shallow embedding of the Go sources. A Go \<open>string\<close> is a byte sequence and is
  modelled by \<^typ>\<open>string\<close> (a list of 8-bit characters); a slice is a list; a
  \<open>map[string]int\<close> is a partial function; \<open>nil\<close> of type \<open>error\<close> is \<open>None\<close>.
  Go's \<open>int\<close> counters only ever count elements of a slice, so they stay far below
  \<open>2^63\<close> and are modelled by \<^typ>\<open>nat\<close>.
\<close>

subsection \<open>Domain types (internal/diff/domain/diff_result.go)\<close>

text \<open>
  \<open>type Status int\<close>: a status is an integer, and the three outcomes of a diff
  operation are the constants \<open>0\<close>, \<open>1\<close> and \<open>2\<close> that \<open>iota\<close> gives them. The type
  is not closed: a conversion such as \<open>Status(3)\<close> is a value of it too. No arithmetic
  is done on a status, so the width of Go's \<open>int\<close> plays no role.
\<close>

type_synonym Status = int

definition StatusSuccess :: Status where
  "StatusSuccess = 0"

definition StatusChanges :: Status where
  "StatusChanges = 1"

definition StatusError :: Status where
  "StatusError = 2"

record DiffResult =
  ChartName :: string
  Environment :: string
  BaseRef :: string
  HeadRef :: string
  Status :: Status
  HasChanges :: bool
  UnifiedDiff :: string
  SemanticDiff :: string
  Summary :: string

text \<open>\<open>func (r DiffResult) PreferredDiff() string\<close>\<close>

definition PreferredDiff :: "DiffResult \<Rightarrow> string" where
  "PreferredDiff r = (if SemanticDiff r \<noteq> [] then SemanticDiff r else UnifiedDiff r)"

text \<open>
  \<open>func CountByStatus(results []DiffResult) (success, changes, errors int)\<close>: the
  \<open>range\<close> loop, with the three named results as the loop state. The \<open>switch\<close> has
  three cases and no \<open>default\<close>: a status that is none of the three constants changes
  no counter.
\<close>

fun CountByStatus_loop :: "DiffResult list \<Rightarrow> nat \<times> nat \<times> nat \<Rightarrow> nat \<times> nat \<times> nat" where
  "CountByStatus_loop [] acc = acc"
| "CountByStatus_loop (r # rs) (success, changes, errors) =
     CountByStatus_loop rs
       (if Status r = StatusSuccess then (success + 1, changes, errors)
        else if Status r = StatusChanges then (success, changes + 1, errors)
        else if Status r = StatusError then (success, changes, errors + 1)
        else (success, changes, errors))"

definition CountByStatus :: "DiffResult list \<Rightarrow> nat \<times> nat \<times> nat" where
  "CountByStatus results = CountByStatus_loop results (0, 0, 0)"

text \<open>\<open>func FormatDiffLabel(chartName, envName, ref string) string\<close>\<close>

definition FormatDiffLabel :: "string \<Rightarrow> string \<Rightarrow> string \<Rightarrow> string" where
  "FormatDiffLabel chartName envName ref = chartName @ ''/'' @ envName @ '' ('' @ ref @ '')''"

subsection \<open>Classification of one (chart, environment) pair\<close>

text \<open>
  The integration flow (\<open>TestIntegration_FullDiffFlow\<close>, \<open>TestIntegration_NewChart\<close>)
  derives status and summary from the two diff outputs:
  \<^verbatim>\<open>
  if semanticDiffOutput != "" || unifiedDiffOutput != "" {
      status = domain.StatusChanges
      summary = fmt.Sprintf("Changes detected in my-app for environment %s.", env.Name)
  } else {
      status = domain.StatusSuccess
      summary = "No changes detected."
  }
  \<close>
  The two flows differ only in the chart name written into the format string
  (\<open>my-app\<close>, \<open>new-chart\<close>), which is the parameter \<open>chart\<close> here.
\<close>

definition classify :: "string \<Rightarrow> string \<Rightarrow> string \<Rightarrow> string \<Rightarrow> Status \<times> string" where
  "classify chart envName semanticDiffOutput unifiedDiffOutput =
     (if semanticDiffOutput \<noteq> [] \<or> unifiedDiffOutput \<noteq> []
      then (StatusChanges,
            ''Changes detected in '' @ chart @ '' for environment '' @ envName @ ''.'')
      else (StatusSuccess, ''No changes detected.''))"

text \<open>
  The \<open>domain.DiffResult{...}\<close> literal of the flow; \<open>HasChanges\<close> is not set there
  and keeps Go's zero value \<open>false\<close>.
\<close>

definition make_result ::
  "string \<Rightarrow> string \<Rightarrow> string \<Rightarrow> string \<Rightarrow> string \<Rightarrow> string \<Rightarrow> DiffResult" where
  "make_result chart envName baseRef headRef semanticDiffOutput unifiedDiffOutput =
     (case classify chart envName semanticDiffOutput unifiedDiffOutput of
        (status, summary) \<Rightarrow>
          \<lparr> ChartName = chart, Environment = envName, BaseRef = baseRef, HeadRef = headRef,
            Status = status, HasChanges = False, UnifiedDiff = unifiedDiffOutput,
            SemanticDiff = semanticDiffOutput, Summary = summary \<rparr>)"

text \<open>The zero value of \<open>DiffResult\<close> (\<open>DiffResult{}\<close>), used for concrete inputs.\<close>

definition zero_DiffResult :: DiffResult where
  "zero_DiffResult =
     \<lparr> ChartName = [], Environment = [], BaseRef = [], HeadRef = [], Status = StatusSuccess,
       HasChanges = False, UnifiedDiff = [], SemanticDiff = [], Summary = [] \<rparr>"

subsection \<open>Grouping (internal/diff/domain/diff_result.go)\<close>

text \<open>
  \<open>groups[idx] = append(groups[idx], r)\<close>: an index outside the slice makes Go panic,
  which is the result \<open>None\<close>.
\<close>

definition append_at :: "DiffResult list list \<Rightarrow> nat \<Rightarrow> DiffResult \<Rightarrow> DiffResult list list option" where
  "append_at groups idx r =
     (if idx < length groups then Some (groups[idx := groups ! idx @ [r]]) else None)"

text \<open>
  \<open>func GroupByChart(results []DiffResult) [][]DiffResult\<close>: the \<open>range\<close> loop over
  the results, with the map \<open>order\<close> (chart name to group index) and the slice
  \<open>groups\<close> as the loop state. A name that is not yet in \<open>order\<close> gets the index
  \<open>len(groups)\<close> and a new empty group (\<open>append(groups, nil)\<close>).
\<close>

fun GroupByChart_loop ::
  "DiffResult list \<Rightarrow> (string \<rightharpoonup> nat) \<Rightarrow> DiffResult list list \<Rightarrow> DiffResult list list option" where
  "GroupByChart_loop [] order groups = Some groups"
| "GroupByChart_loop (r # rs) order groups =
     (case order (ChartName r) of
        Some idx \<Rightarrow>
          (case append_at groups idx r of
             None \<Rightarrow> None
           | Some groups' \<Rightarrow> GroupByChart_loop rs order groups')
      | None \<Rightarrow>
          (let idx = length groups in
           case append_at (groups @ [[]]) idx r of
             None \<Rightarrow> None
           | Some groups' \<Rightarrow> GroupByChart_loop rs (order(ChartName r \<mapsto> idx)) groups'))"

definition GroupByChart :: "DiffResult list \<Rightarrow> DiffResult list list option" where
  "GroupByChart results = GroupByChart_loop results Map.empty []"

text \<open>
  For stating the grouping law: the distinct elements of a list in the order of their
  first occurrence, the groups of a result list as the law describes them, and the
  loop invariant that ties \<open>order\<close> to the names seen so far.
\<close>

fun first_seen :: "'a list \<Rightarrow> 'a list" where
  "first_seen [] = []"
| "first_seen (x # xs) = x # filter (\<lambda>y. y \<noteq> x) (first_seen xs)"

definition grouped :: "DiffResult list \<Rightarrow> DiffResult list list" where
  "grouped rs = map (\<lambda>c. filter (\<lambda>r. ChartName r = c) rs) (first_seen (map ChartName rs))"

definition order_inv :: "(string \<rightharpoonup> nat) \<Rightarrow> string list \<Rightarrow> bool" where
  "order_inv order names = (\<forall>c i. (order c = Some i) = (i < length names \<and> names ! i = c))"

subsection \<open>Errors (internal/diff/domain/errors.go)\<close>

text \<open>
  A Go \<open>error\<close> value, as far as the domain sees one: a plain message
  (\<open>errors.New\<close>), the typed \<open>*NotFoundError\<close>, or an error wrapping another one
  (\<open>fmt.Errorf("...: %w", err)\<close>), whose message is its own text followed by the
  wrapped error's message and whose \<open>Unwrap\<close> is the wrapped error. \<open>nil\<close> is
  \<open>None\<close> of \<open>go_error option\<close>.
\<close>

datatype go_error =
    ErrorString string
  | NotFoundError string string
  | WrapError string go_error

text \<open>
  The \<open>Error()\<close> method; for \<open>*NotFoundError\<close> it is
  \<open>fmt.Sprintf("%s not found at ref %s", e.Resource, e.Ref)\<close>.
\<close>

fun Error :: "go_error \<Rightarrow> string" where
  "Error (ErrorString msg) = msg"
| "Error (NotFoundError resource ref) = resource @ '' not found at ref '' @ ref"
| "Error (WrapError msg err) = msg @ Error err"

text \<open>
  \<open>errors.As(err, &notFoundErr)\<close> for a target of type \<open>*NotFoundError\<close>: it follows
  the \<open>Unwrap\<close> chain and yields the first \<open>*NotFoundError\<close> on it.
\<close>

fun errors_As_NotFoundError :: "go_error \<Rightarrow> (string \<times> string) option" where
  "errors_As_NotFoundError (ErrorString msg) = None"
| "errors_As_NotFoundError (NotFoundError resource ref) = Some (resource, ref)"
| "errors_As_NotFoundError (WrapError msg err) = errors_As_NotFoundError err"

definition NewNotFoundError :: "string \<Rightarrow> string \<Rightarrow> go_error" where
  "NewNotFoundError resource ref = NotFoundError resource ref"

text \<open>\<open>func IsNotFound(err error) bool\<close> of internal/diff/domain/errors.go.\<close>

fun IsNotFound :: "go_error option \<Rightarrow> bool" where
  "IsNotFound None = False"
| "IsNotFound (Some err) = (errors_As_NotFoundError err \<noteq> None)"

text \<open>
  A second version of the same file (with the comment "It also checks for common
  "not found" error messages from external systems for backward compatibility") adds a
  fallback on the error text. Its helper \<open>containsAny\<close> tries, for each substring in
  turn, every start index \<open>i\<close> from \<open>0\<close> to \<open>len(s)-len(substr)\<close> and compares the
  slice \<open>s[i:i+len(substr)]\<close>.
\<close>

fun containsAny :: "string \<Rightarrow> string list \<Rightarrow> bool" where
  "containsAny s [] = False"
| "containsAny s (substr # substrs) =
     (if length s \<ge> length substr
         \<and> list_ex (\<lambda>i. take (length substr) (drop i s) = substr)
               [0 ..< Suc (length s - length substr)]
      then True
      else containsAny s substrs)"

fun IsNotFound_with_fallback :: "go_error option \<Rightarrow> bool" where
  "IsNotFound_with_fallback None = False"
| "IsNotFound_with_fallback (Some err) =
     (if errors_As_NotFoundError err \<noteq> None then True
      else containsAny (Error err) [''not found'', ''no such file or directory'', ''404''])"

text \<open>For stating the property: an error is, or wraps, a typed \<open>NotFoundError\<close>.\<close>

inductive wraps_NotFoundError :: "go_error \<Rightarrow> bool" where
  is_NotFoundError: "wraps_NotFoundError (NotFoundError resource ref)"
| wraps: "wraps_NotFoundError err \<Longrightarrow> wraps_NotFoundError (WrapError msg err)"

subsection \<open>Chart names from changed paths (ExtractChartNames)\<close>

text \<open>
  The library functions the code calls. \<open>strings.HasPrefix\<close>; \<open>strings.SplitN\<close> and
  \<open>strings.Split\<close> for a one-byte separator: Go's \<open>genSplit\<close> cuts the string at the
  first \<open>n - 1\<close> occurrences of the separator (\<open>SplitN\<close>), or at all of its
  \<open>Count(s, sep)\<close> occurrences (\<open>Split\<close>), and the last piece is the uncut rest.
  \<open>genSplit k\<close> here makes at most \<open>k\<close> cuts.
\<close>

definition HasPrefix :: "string \<Rightarrow> string \<Rightarrow> bool" where
  "HasPrefix s pre = prefix pre s"

fun genSplit :: "nat \<Rightarrow> char \<Rightarrow> string \<Rightarrow> string list" where
  "genSplit 0 sep s = [s]"
| "genSplit (Suc k) sep s =
     (if sep \<in> set s
      then takeWhile (\<lambda>c. c \<noteq> sep) s # genSplit k sep (tl (dropWhile (\<lambda>c. c \<noteq> sep) s))
      else [s])"

definition SplitN :: "string \<Rightarrow> char \<Rightarrow> nat \<Rightarrow> string list" where
  "SplitN s sep n = (if n = 0 then [] else genSplit (n - 1) sep s)"

definition Split :: "string \<Rightarrow> char \<Rightarrow> string list" where
  "Split s sep = genSplit (count_list s sep) sep s"

text \<open>
  \<open>func ExtractChartNames(files []string) []string\<close>: the loop over the paths with the
  set \<open>seen\<close> and the slice \<open>names\<close> as its state.
\<close>

fun ExtractChartNames_loop :: "string list \<Rightarrow> string set \<Rightarrow> string list \<Rightarrow> string list" where
  "ExtractChartNames_loop [] seen names = names"
| "ExtractChartNames_loop (f # files) seen names =
     (if \<not> HasPrefix f ''charts/'' then ExtractChartNames_loop files seen names
      else let parts = SplitN f (CHR ''/'') 3 in
        if length parts < 2 \<or> parts ! 1 = [] then ExtractChartNames_loop files seen names
        else let name = parts ! 1 in
          if name \<notin> seen
          then ExtractChartNames_loop files (insert name seen) (names @ [name])
          else ExtractChartNames_loop files seen names)"

definition ExtractChartNames :: "string list \<Rightarrow> string list" where
  "ExtractChartNames files = ExtractChartNames_loop files {} []"

text \<open>
  For stating the property: the name a single path contributes, if any, namely its
  second slash-separated segment when the path starts with \<open>charts/\<close> and that
  segment is not empty.
\<close>

definition chart_of_path :: "string \<Rightarrow> string option" where
  "chart_of_path f =
     (if prefix ''charts/'' f \<and> Split f (CHR ''/'') ! 1 \<noteq> []
      then Some (Split f (CHR ''/'') ! 1) else None)"

subsection \<open>Report formatting (formatCheckRunMarkdown, formatPRComment)\<close>

text \<open>
  \<open>fmt\<close>'s \<open>%d\<close> of a non-negative \<open>int\<close> (decimal digits, no padding); \<open>%s\<close> of a
  string is the string itself. The dash in the headings is U+2014, three bytes in the
  UTF-8 source text.
\<close>

function itoa :: "nat \<Rightarrow> string" where
  "itoa n = (if n < 10 then [char_of (48 + n)] else itoa (n div 10) @ [char_of (48 + n mod 10)])"
  by pat_completeness auto
termination
  by (relation "measure id") auto

declare itoa.simps [simp del]

definition em_dash :: string where
  "em_dash = [CHR 0xE2, CHR 0x80, CHR 0x94]"

text \<open>
  \<open>func formatCheckRunMarkdown(results []domain.DiffResult) string\<close>. First the loop
  that counts \<open>changed\<close> and \<open>unchanged\<close>, then the conclusion token, then the
  \<open>strings.Builder\<close> \<open>sb\<close>, threaded through the header and through one section per
  result (\<open>i\<close> is the loop index).
\<close>

fun count_changed :: "DiffResult list \<Rightarrow> nat \<times> nat \<Rightarrow> nat \<times> nat" where
  "count_changed [] acc = acc"
| "count_changed (r # rs) (changed, unchanged) =
     count_changed rs
       (if Status r = StatusChanges then (changed + 1, unchanged) else (changed, unchanged + 1))"

definition conclusion_of :: "nat \<Rightarrow> string" where
  "conclusion_of changed = (if changed > 0 then ''neutral'' else ''success'')"

definition check_run_section :: "nat \<Rightarrow> DiffResult \<Rightarrow> string \<Rightarrow> string" where
  "check_run_section i r sb0 =
     (let sb1 = (if i > 0 then sb0 @ ''\<newline>'' else sb0);
          status = (if Status r = StatusChanges then ''Changed'' else ''No Changes'');
          sb2 = sb1 @ ''<details><summary>'' @ Environment r @ '' '' @ em_dash @ '' '' @ status
                    @ ''</summary>\<newline>\<newline>'';
          sb3 = (if UnifiedDiff r = [] \<and> SemanticDiff r = []
                 then sb2 @ ''No changes detected.\<newline>''
                 else
                   let sb2a = (if SemanticDiff r \<noteq> []
                               then sb2 @ ''**Semantic Diff (dyff):**\<newline>''
                                        @ ''```diff\<newline>'' @ SemanticDiff r @ ''\<newline>```\<newline>\<newline>''
                               else sb2)
                   in (if UnifiedDiff r \<noteq> []
                       then sb2a @ ''**Unified Diff (line-based):**\<newline>''
                                 @ ''```diff\<newline>'' @ UnifiedDiff r @ ''\<newline>```\<newline>''
                       else sb2a))
      in sb3 @ ''\<newline></details>\<newline>'')"

fun check_run_sections :: "nat \<Rightarrow> DiffResult list \<Rightarrow> string \<Rightarrow> string" where
  "check_run_sections i [] sb = sb"
| "check_run_sections i (r # rs) sb = check_run_sections (i + 1) rs (check_run_section i r sb)"

definition formatCheckRunMarkdown :: "DiffResult list \<Rightarrow> string" where
  "formatCheckRunMarkdown results =
     (if length results = 0 then []
      else
        let chartName = ChartName (hd results);
            (changed, unchanged) = count_changed results (0, 0);
            conclusion = conclusion_of changed;
            sb = ''# chart-sentry: '' @ chartName @ ''\<newline>\<newline>''
               @ ''**Status:** completed\<newline>''
               @ ''**Conclusion:** '' @ conclusion @ ''\<newline>\<newline>''
               @ ''## Helm diff '' @ em_dash @ '' '' @ chartName @ ''\<newline>\<newline>''
               @ ''### Summary\<newline>''
               @ ''Analyzed '' @ itoa (length results) @ '' environment(s): '' @ itoa changed
               @ '' changed, '' @ itoa unchanged @ '' unchanged\<newline>\<newline>''
               @ ''### Output\<newline>''
        in check_run_sections 0 results sb)"

text \<open>
  \<open>func formatPRComment(results []domain.DiffResult) string\<close>: the loop writing the
  table rows and the loop writing the detail sections (with its \<open>continue\<close> for a
  result whose status is not \<open>StatusChanges\<close>), both on the builder \<open>sb\<close>.
\<close>

fun pr_table_rows :: "DiffResult list \<Rightarrow> string \<Rightarrow> string" where
  "pr_table_rows [] sb = sb"
| "pr_table_rows (r # rs) sb =
     (let status = (if Status r = StatusChanges then ''Changed'' else ''No Changes'')
      in pr_table_rows rs
           (sb @ ''| '' @ ChartName r @ '' | '' @ Environment r @ '' | '' @ status @ '' |\<newline>''))"

fun pr_detail_sections :: "DiffResult list \<Rightarrow> string \<Rightarrow> string" where
  "pr_detail_sections [] sb = sb"
| "pr_detail_sections (r # rs) sb =
     (let sb1 = sb @ ''### '' @ ChartName r @ ''/'' @ Environment r @ ''\<newline>'' in
      if Status r \<noteq> StatusChanges
      then pr_detail_sections rs (sb1 @ ''No changes detected.\<newline>\<newline>'')
      else
        let sb2 = sb1 @ ''<details><summary>View diff</summary>\<newline>\<newline>'';
            diffToShow = (if SemanticDiff r = [] then UnifiedDiff r else SemanticDiff r);
            sb3 = sb2 @ ''```diff\<newline>'' @ diffToShow @ ''\<newline>```\<newline>''
        in pr_detail_sections rs (sb3 @ ''</details>\<newline>\<newline>''))"

definition formatPRComment :: "DiffResult list \<Rightarrow> string" where
  "formatPRComment results =
     (let sb0 = ''## Chart-Sentry Diff Report\<newline>\<newline>''
              @ ''| Chart | Environment | Status |\<newline>''
              @ ''|-------|-------------|--------|\<newline>'';
          sb1 = pr_table_rows results sb0;
          sb2 = sb1 @ ''\<newline>''
      in pr_detail_sections results sb2)"

subsection \<open>The environment runner\<close>

text \<open>\<open>type EnvironmentConfig struct\<close> of the domain package.\<close>

record EnvironmentConfig =
  Name :: string
  ValueFiles :: "string list"

text \<open>
  Modelled from the spec: the environment runner (RunChart of section 4.2) is the app
  service, which is not among the sources; only the classification it shares with the
  integration flow is (\<open>classify\<close>, \<open>make_result\<close> above). Following 4.2 and 7: for
  each environment, in order, the chart is fetched and rendered at both revisions
  (\<open>render\<close>, the two external collaborators together). A chart absent at a revision
  ("not found") gives the empty manifest; any other failure makes the environment's
  result \<open>Error\<close> with the failure's description as summary, before any diff is
  computed, and the other environments still run. With both manifests the two differs
  are called on the labels and manifests and the result is classified.
\<close>

datatype render_outcome = Rendered string | ChartNotFound | RenderFailed string

text \<open>
  Modelled from the spec: the \<open>Error\<close> result of an environment whose rendering
  failed (the runner's code is missing). Its summary is the description of the
  failure; no diff has been computed, so both diff strings keep the zero value.
\<close>

definition error_result :: "string \<Rightarrow> string \<Rightarrow> string \<Rightarrow> string \<Rightarrow> string \<Rightarrow> DiffResult" where
  "error_result chart envName baseRef headRef failure =
     \<lparr> ChartName = chart, Environment = envName, BaseRef = baseRef, HeadRef = headRef,
       Status = StatusError, HasChanges = False, UnifiedDiff = [], SemanticDiff = [],
       Summary = failure \<rparr>"

text \<open>
  Modelled from the spec: what the runner does with the outcome of fetching and
  rendering one side (the runner's code is missing). "Not found" is the empty
  manifest, any other failure is passed on.
\<close>

definition manifest_of :: "render_outcome \<Rightarrow> string + string" where
  "manifest_of outcome =
     (case outcome of
        Rendered manifest \<Rightarrow> Inr manifest
      | ChartNotFound \<Rightarrow> Inr []
      | RenderFailed failure \<Rightarrow> Inl failure)"

text \<open>
  Modelled from the spec: the evaluation of one environment (the runner's code is
  missing), ending in the classification of the integration flow.
\<close>

definition RunEnvironment ::
  "(string \<Rightarrow> EnvironmentConfig \<Rightarrow> render_outcome) \<Rightarrow>
   (string \<Rightarrow> string \<Rightarrow> string \<Rightarrow> string \<Rightarrow> string) \<Rightarrow>
   (string \<Rightarrow> string \<Rightarrow> string \<Rightarrow> string \<Rightarrow> string) \<Rightarrow>
   string \<Rightarrow> string \<Rightarrow> string \<Rightarrow> EnvironmentConfig \<Rightarrow> DiffResult" where
  "RunEnvironment render semanticDiff unifiedDiff chart baseRef headRef env =
     (case manifest_of (render baseRef env) of
        Inl failure \<Rightarrow> error_result chart (Name env) baseRef headRef failure
      | Inr baseManifest \<Rightarrow>
          (case manifest_of (render headRef env) of
             Inl failure \<Rightarrow> error_result chart (Name env) baseRef headRef failure
           | Inr headManifest \<Rightarrow>
               let baseName = FormatDiffLabel chart (Name env) baseRef;
                   headName = FormatDiffLabel chart (Name env) headRef
               in make_result chart (Name env) baseRef headRef
                    (semanticDiff baseName headName baseManifest headManifest)
                    (unifiedDiff baseName headName baseManifest headManifest)))"

text \<open>
  Modelled from the spec: \<open>RunChart\<close>, one result per environment in discovery order
  (the runner's code is missing).
\<close>

definition RunChart ::
  "(string \<Rightarrow> EnvironmentConfig \<Rightarrow> render_outcome) \<Rightarrow>
   (string \<Rightarrow> string \<Rightarrow> string \<Rightarrow> string \<Rightarrow> string) \<Rightarrow>
   (string \<Rightarrow> string \<Rightarrow> string \<Rightarrow> string \<Rightarrow> string) \<Rightarrow>
   string \<Rightarrow> string \<Rightarrow> string \<Rightarrow> EnvironmentConfig list \<Rightarrow> DiffResult list" where
  "RunChart render semanticDiff unifiedDiff chart baseRef headRef environments =
     map (RunEnvironment render semanticDiff unifiedDiff chart baseRef headRef) environments"

subsection \<open>The semantic differ (dyff_diff adapter)\<close>

text \<open>
  Library functions: \<open>strings.Contains\<close>, \<open>strings.Join\<close> and \<open>strings.TrimSpace\<close>.
  \<open>TrimSpace\<close> removes the leading and the trailing white space as \<open>unicode.IsSpace\<close>
  defines it, on the UTF-8 bytes of the string: the six ASCII characters tab, newline,
  vertical tab, form feed, carriage return and space; U+0085 and U+00A0 (two bytes);
  U+1680, U+2000 to U+200A, U+2028, U+2029, U+202F, U+205F and U+3000 (three bytes).
  Any other byte, also one that is not valid UTF-8, stops the trimming.
  \<open>TrimRightSpace_rev\<close> works on the reversed string, so its first byte is the last
  byte of the string.
\<close>

fun Contains :: "string \<Rightarrow> string \<Rightarrow> bool" where
  "Contains [] substr = (substr = [])"
| "Contains (c # cs) substr = (prefix substr (c # cs) \<or> Contains cs substr)"

fun Join :: "string list \<Rightarrow> string \<Rightarrow> string" where
  "Join [] sep = []"
| "Join [x] sep = x"
| "Join (x # y # ys) sep = x @ sep @ Join (y # ys) sep"

definition asciiSpace :: "char \<Rightarrow> bool" where
  "asciiSpace c = (c = CHR 0x09 \<or> c = CHR 0x0A \<or> c = CHR 0x0B \<or> c = CHR 0x0C \<or> c = CHR 0x0D \<or> c = CHR 0x20)"

definition space3 :: "char \<Rightarrow> char \<Rightarrow> char \<Rightarrow> bool" where
  "space3 b1 b2 b3 =
     ((b1 = CHR 0xE1 \<and> b2 = CHR 0x9A \<and> b3 = CHR 0x80)
      \<or> (b1 = CHR 0xE2 \<and> b2 = CHR 0x80 \<and>
           ((of_char b3 :: nat) \<in> {0x80 .. 0x8A} \<or> b3 = CHR 0xA8 \<or> b3 = CHR 0xA9 \<or> b3 = CHR 0xAF))
      \<or> (b1 = CHR 0xE2 \<and> b2 = CHR 0x81 \<and> b3 = CHR 0x9F)
      \<or> (b1 = CHR 0xE3 \<and> b2 = CHR 0x80 \<and> b3 = CHR 0x80))"

definition space2 :: "char \<Rightarrow> char \<Rightarrow> bool" where
  "space2 b1 b2 = (b1 = CHR 0xC2 \<and> (b2 = CHR 0x85 \<or> b2 = CHR 0xA0))"

fun TrimLeftSpace :: "string \<Rightarrow> string" where
  "TrimLeftSpace (b1 # b2 # b3 # s) =
     (if asciiSpace b1 then TrimLeftSpace (b2 # b3 # s)
      else if space2 b1 b2 then TrimLeftSpace (b3 # s)
      else if space3 b1 b2 b3 then TrimLeftSpace s
      else b1 # b2 # b3 # s)"
| "TrimLeftSpace [b1, b2] =
     (if asciiSpace b1 then TrimLeftSpace [b2]
      else if space2 b1 b2 then []
      else [b1, b2])"
| "TrimLeftSpace [b1] = (if asciiSpace b1 then [] else [b1])"
| "TrimLeftSpace [] = []"

fun TrimRightSpace_rev :: "string \<Rightarrow> string" where
  "TrimRightSpace_rev (b3 # b2 # b1 # s) =
     (if asciiSpace b3 then TrimRightSpace_rev (b2 # b1 # s)
      else if space2 b2 b3 then TrimRightSpace_rev (b1 # s)
      else if space3 b1 b2 b3 then TrimRightSpace_rev s
      else b3 # b2 # b1 # s)"
| "TrimRightSpace_rev [b3, b2] =
     (if asciiSpace b3 then TrimRightSpace_rev [b2]
      else if space2 b2 b3 then []
      else [b3, b2])"
| "TrimRightSpace_rev [b3] = (if asciiSpace b3 then [] else [b3])"
| "TrimRightSpace_rev [] = []"

definition TrimSpace :: "string \<Rightarrow> string" where
  "TrimSpace s = rev (TrimRightSpace_rev (rev (TrimLeftSpace s)))"

text \<open>
  \<open>func cleanDyffOutput(output, tmpDir string) string\<close>. The banner test of the loop
  body, on the line and on its trimmed form (\<open>&&\<close> binds tighter than \<open>||\<close>), then the
  loop over the lines with the slice \<open>cleaned\<close>, then the function.
\<close>

definition is_banner_line :: "string \<Rightarrow> string \<Rightarrow> bool" where
  "is_banner_line line trimmed =
     (Contains line ''_        __  __'' \<or>
      Contains trimmed ''_| |_   _ / _|/ _|'' \<or>
      Contains trimmed (''/ _'' @ [CHR 0x27] @ '' | | | | |_| |_'') \<or>
      Contains trimmed ''| (_| | |_| |  _|  _|'' \<or>
      Contains trimmed ([CHR 0x5C] @ ''__,_|'' @ [CHR 0x5C] @ ''__, |_| |_|'') \<or>
      Contains trimmed ''|___/'' \<or>
      Contains line ''returned'' \<and> (Contains line ''difference'' \<or> Contains line ''differences''))"

fun cleanDyffOutput_loop :: "string list \<Rightarrow> string \<Rightarrow> string list \<Rightarrow> string list" where
  "cleanDyffOutput_loop [] tmpDir cleaned = cleaned"
| "cleanDyffOutput_loop (line # lines) tmpDir cleaned =
     (if Contains line tmpDir then cleanDyffOutput_loop lines tmpDir cleaned
      else let trimmed = TrimSpace line in
        if is_banner_line line trimmed then cleanDyffOutput_loop lines tmpDir cleaned
        else if length cleaned = 0 \<and> trimmed = [] then cleanDyffOutput_loop lines tmpDir cleaned
        else cleanDyffOutput_loop lines tmpDir (cleaned @ [line]))"

definition cleanDyffOutput :: "string \<Rightarrow> string \<Rightarrow> string" where
  "cleanDyffOutput output tmpDir =
     Join (cleanDyffOutput_loop (Split output (CHR 0x0A)) tmpDir []) ''\<newline>''"

text \<open>
  \<open>func (a *Adapter) ComputeDiff(baseName, headName string, base, head []byte) string\<close>.
  What the operating system and the \<open>dyff\<close> process answer is the input \<open>run\<close>: the
  result of \<open>exec.LookPath\<close> and of \<open>os.MkdirTemp\<close> (\<open>None\<close> for an error), whether
  the two \<open>os.WriteFile\<close> calls succeed, and the process's standard output and
  standard error.
\<close>

record dyff_run =
  LookPath :: "string option"
  MkdirTemp :: "string option"
  WriteBase :: bool
  WriteHead :: bool
  Stdout :: string
  Stderr :: string

definition ComputeDiff :: "dyff_run \<Rightarrow> string \<Rightarrow> string \<Rightarrow> string" where
  "ComputeDiff run baseName headName =
     (case LookPath run of
        None \<Rightarrow> []
      | Some dyffPath \<Rightarrow>
          (case MkdirTemp run of
             None \<Rightarrow> []
           | Some tmpDir \<Rightarrow>
               if \<not> WriteBase run then []
               else if \<not> WriteHead run then []
               else if Stdout run = [] \<and> length (Stderr run) > 0 then []
               else
                 let output = cleanDyffOutput (Stdout run) tmpDir in
                 if TrimSpace output = [] then []
                 else TrimSpace (''--- '' @ baseName @ ''\<newline>'' @ ''+++ '' @ headName
                                 @ ''\<newline>\<newline>'' @ output)))"

text \<open>
  For stating the property: a line survives the filters when it neither contains the
  temp-directory path nor is a banner line; a line is blank when trimming leaves
  nothing.
\<close>

definition keep_line :: "string \<Rightarrow> string \<Rightarrow> bool" where
  "keep_line tmpDir line = (\<not> Contains line tmpDir \<and> \<not> is_banner_line line (TrimSpace line))"

definition blank_line :: "string \<Rightarrow> bool" where
  "blank_line line = (TrimSpace line = [])"

section \<open>Verification\<close>

subsection \<open>The status constants\<close>

lemma Status_distinct [simp]:
  "StatusSuccess \<noteq> StatusChanges" "StatusChanges \<noteq> StatusSuccess"
  "StatusSuccess \<noteq> StatusError" "StatusError \<noteq> StatusSuccess"
  "StatusChanges \<noteq> StatusError" "StatusError \<noteq> StatusChanges"
  by (simp_all add: StatusSuccess_def StatusChanges_def StatusError_def)

subsection \<open>Counting\<close>

lemma CountByStatus_loop_counts:
  "CountByStatus_loop rs (s, c, e) =
     (s + length (filter (\<lambda>r. Status r = StatusSuccess) rs),
      c + length (filter (\<lambda>r. Status r = StatusChanges) rs),
      e + length (filter (\<lambda>r. Status r = StatusError) rs))"
proof (induction rs arbitrary: s c e)
  case Nil
  show ?case by simp
next
  case (Cons r rs)
  show ?case by (simp add: Cons.IH)
qed

lemma status_classes_length:
  "length (filter (\<lambda>r. Status r = StatusSuccess) rs)
   + length (filter (\<lambda>r. Status r = StatusChanges) rs)
   + length (filter (\<lambda>r. Status r = StatusError) rs)
   = length (filter (\<lambda>r. Status r = StatusSuccess \<or> Status r = StatusChanges
                          \<or> Status r = StatusError) rs)"
  by (induction rs) auto

lemma filter_all_known:
  assumes "\<forall>r \<in> set rs. Status r = StatusSuccess \<or> Status r = StatusChanges \<or> Status r = StatusError"
  shows "filter (\<lambda>r. Status r = StatusSuccess \<or> Status r = StatusChanges
                          \<or> Status r = StatusError) rs = rs"
  using assms by (simp add: filter_id_conv)

text \<open>
  \<open>Status\<close> is an integer type and the \<open>switch\<close> of \<open>CountByStatus\<close> has no
  \<open>default\<close>, so claim C9 does not hold for every sequence: a result whose status is
  \<open>Status(3)\<close> is counted nowhere, and the three counts of a one-element sequence add up
  to \<open>0\<close>.
\<close>

theorem CountByStatus_unknown_status_counterexample:
  "CountByStatus [zero_DiffResult\<lparr>Status := 3\<rparr>] = (0, 0, 0)
   \<and> length [zero_DiffResult\<lparr>Status := 3\<rparr>] = 1"
  by (simp add: CountByStatus_def zero_DiffResult_def StatusSuccess_def StatusChanges_def
        StatusError_def)

text \<open>
  Claim C9, amended. \<open>CountByStatus\<close> is a pure reduction: the three counters are the
  numbers of results whose status is \<open>StatusSuccess\<close>, \<open>StatusChanges\<close> and
  \<open>StatusError\<close> respectively. A result with one of these three statuses adds one to
  exactly the counter of its status, a result with any other status adds nothing; so
  the three counts add up to the number of results that have one of the three
  statuses, which is the length of the input when every result has one of them.
\<close>

theorem CountByStatus_partition:
  "CountByStatus results =
     (length (filter (\<lambda>r. Status r = StatusSuccess) results),
      length (filter (\<lambda>r. Status r = StatusChanges) results),
      length (filter (\<lambda>r. Status r = StatusError) results))
   \<and> (case CountByStatus results of
        (success, changes, errors) \<Rightarrow>
          success + changes + errors =
            length (filter (\<lambda>r. Status r = StatusSuccess \<or> Status r = StatusChanges
                                 \<or> Status r = StatusError) results))
   \<and> ((\<forall>r \<in> set results. Status r = StatusSuccess \<or> Status r = StatusChanges
                              \<or> Status r = StatusError) \<longrightarrow>
        (case CountByStatus results of
           (success, changes, errors) \<Rightarrow> success + changes + errors = length results))
   \<and> (case CountByStatus (results @ [r]) of (success', changes', errors') \<Rightarrow>
        case CountByStatus results of (success, changes, errors) \<Rightarrow>
          (success', changes', errors') =
            (if Status r = StatusSuccess then (success + 1, changes, errors)
             else if Status r = StatusChanges then (success, changes + 1, errors)
             else if Status r = StatusError then (success, changes, errors + 1)
             else (success, changes, errors)))"
proof -
  have counts: "\<And>xs. CountByStatus xs =
     (length (filter (\<lambda>r. Status r = StatusSuccess) xs),
      length (filter (\<lambda>r. Status r = StatusChanges) xs),
      length (filter (\<lambda>r. Status r = StatusError) xs))"
    by (simp add: CountByStatus_def CountByStatus_loop_counts)
  have total: "case CountByStatus results of
        (success, changes, errors) \<Rightarrow>
          success + changes + errors =
            length (filter (\<lambda>r. Status r = StatusSuccess \<or> Status r = StatusChanges
                                 \<or> Status r = StatusError) results)"
    by (simp add: counts status_classes_length)
  have known: "case CountByStatus results of
           (success, changes, errors) \<Rightarrow> success + changes + errors = length results"
    if "\<forall>r \<in> set results. Status r = StatusSuccess \<or> Status r = StatusChanges
                              \<or> Status r = StatusError"
    using total filter_all_known [OF that] by simp
  have step: "case CountByStatus (results @ [r]) of (success', changes', errors') \<Rightarrow>
        case CountByStatus results of (success, changes, errors) \<Rightarrow>
          (success', changes', errors') =
            (if Status r = StatusSuccess then (success + 1, changes, errors)
             else if Status r = StatusChanges then (success, changes + 1, errors)
             else if Status r = StatusError then (success, changes, errors + 1)
             else (success, changes, errors))"
    by (simp add: counts)
  from counts total known step show ?thesis by blast
qed

theorem CountByStatus_partition_witness:
  "list_all (\<lambda>r. Status r = StatusSuccess \<or> Status r = StatusChanges \<or> Status r = StatusError)
      [zero_DiffResult\<lparr>Status := StatusSuccess\<rparr>, zero_DiffResult\<lparr>Status := StatusChanges\<rparr>,
       zero_DiffResult\<lparr>Status := StatusError\<rparr>, zero_DiffResult\<lparr>Status := StatusSuccess\<rparr>,
       zero_DiffResult\<lparr>Status := StatusChanges\<rparr>]
   \<and> CountByStatus
        [zero_DiffResult\<lparr>Status := StatusSuccess\<rparr>, zero_DiffResult\<lparr>Status := StatusChanges\<rparr>,
         zero_DiffResult\<lparr>Status := StatusError\<rparr>, zero_DiffResult\<lparr>Status := StatusSuccess\<rparr>,
         zero_DiffResult\<lparr>Status := StatusChanges\<rparr>] = (2, 2, 1)
   \<and> (2::nat) + 2 + 1 =
       length [zero_DiffResult\<lparr>Status := StatusSuccess\<rparr>, zero_DiffResult\<lparr>Status := StatusChanges\<rparr>,
         zero_DiffResult\<lparr>Status := StatusError\<rparr>, zero_DiffResult\<lparr>Status := StatusSuccess\<rparr>,
         zero_DiffResult\<lparr>Status := StatusChanges\<rparr>]"
  using CountByStatus_partition
     [of "[zero_DiffResult\<lparr>Status := StatusSuccess\<rparr>, zero_DiffResult\<lparr>Status := StatusChanges\<rparr>,
         zero_DiffResult\<lparr>Status := StatusError\<rparr>, zero_DiffResult\<lparr>Status := StatusSuccess\<rparr>,
         zero_DiffResult\<lparr>Status := StatusChanges\<rparr>]" "zero_DiffResult"]
  by (simp add: zero_DiffResult_def)

subsection \<open>Classification\<close>

text \<open>
  Claim C1. For the two diff outputs of a (chart, environment) pair the status is
  \<open>StatusSuccess\<close> with summary "No changes detected." exactly when both the semantic
  and the unified diff are empty; otherwise (at least one is non-empty) the status is
  \<open>StatusChanges\<close> and the summary is the sentence naming the chart and the
  environment.
\<close>

theorem classify_status:
  "(classify chart envName sem uni = (StatusSuccess, ''No changes detected.'')) = (sem = [] \<and> uni = [])
   \<and> (fst (classify chart envName sem uni) = StatusSuccess) = (sem = [] \<and> uni = [])
   \<and> (sem \<noteq> [] \<or> uni \<noteq> [] \<longrightarrow>
        classify chart envName sem uni =
          (StatusChanges, ''Changes detected in '' @ chart @ '' for environment '' @ envName @ ''.'')
        \<and> sublist chart (snd (classify chart envName sem uni))
        \<and> sublist envName (snd (classify chart envName sem uni)))
   \<and> Status (make_result chart envName baseRef headRef sem uni) = fst (classify chart envName sem uni)
   \<and> Summary (make_result chart envName baseRef headRef sem uni) = snd (classify chart envName sem uni)
   \<and> SemanticDiff (make_result chart envName baseRef headRef sem uni) = sem
   \<and> UnifiedDiff (make_result chart envName baseRef headRef sem uni) = uni"
proof -
  have chart_named:
    "sublist chart (''Changes detected in '' @ chart @ '' for environment '' @ envName @ ''.'')"
    by (rule sublist_appendI)
  have "sublist envName
          ((''Changes detected in '' @ chart @ '' for environment '') @ envName @ ''.'')"
    by (rule sublist_appendI)
  then have env_named:
    "sublist envName (''Changes detected in '' @ chart @ '' for environment '' @ envName @ ''.'')"
    by simp
  show ?thesis
    using chart_named env_named by (auto simp: classify_def make_result_def)
qed

theorem classify_status_witness:
  "(''-replicas: 3'' \<noteq> []
    \<and> classify ''my-app'' ''prod'' [] ''-replicas: 3'' =
        (StatusChanges, ''Changes detected in my-app for environment prod.'')
    \<and> sublist ''my-app'' (snd (classify ''my-app'' ''prod'' [] ''-replicas: 3''))
    \<and> sublist ''prod'' (snd (classify ''my-app'' ''prod'' [] ''-replicas: 3'')))
   \<and> classify ''my-app'' ''prod'' [] [] = (StatusSuccess, ''No changes detected.'')"
  using classify_status [of "''my-app''" "''prod''" "[]" "''-replicas: 3''"]
        classify_status [of "''my-app''" "''prod''" "[]" "[]"]
  by (simp add: sublist_code)

subsection \<open>Grouping\<close>

lemma set_first_seen [simp]: "set (first_seen xs) = set xs"
  by (induction xs) auto

lemma distinct_first_seen [simp]: "distinct (first_seen xs)"
  by (induction xs) auto

lemma first_seen_snoc:
  "first_seen (xs @ [x]) = (if x \<in> set xs then first_seen xs else first_seen xs @ [x])"
  by (induction xs) auto

lemma grouped_snoc_new:
  assumes "ChartName r \<notin> ChartName ` set pre"
  shows "grouped (pre @ [r]) = grouped pre @ [[r]]"
proof -
  have "filter (\<lambda>x. ChartName x = ChartName r) pre = []"
    using assms by (auto simp: filter_empty_conv image_iff)
  moreover have "map (\<lambda>c. filter (\<lambda>x. ChartName x = c) (pre @ [r])) (first_seen (map ChartName pre))
      = map (\<lambda>c. filter (\<lambda>x. ChartName x = c) pre) (first_seen (map ChartName pre))"
    using assms by (intro map_cong) auto
  ultimately show ?thesis
    using assms by (simp add: grouped_def first_seen_snoc)
qed

lemma grouped_snoc_old:
  assumes "i < length (first_seen (map ChartName pre))"
    and "first_seen (map ChartName pre) ! i = ChartName r"
  shows "grouped (pre @ [r]) = (grouped pre)[i := grouped pre ! i @ [r]]"
proof -
  let ?names = "first_seen (map ChartName pre)"
  have mem: "ChartName r \<in> ChartName ` set pre"
    using assms by (metis nth_mem set_first_seen set_map)
  have names: "first_seen (map ChartName pre @ [ChartName r]) = ?names"
    using mem by (simp add: first_seen_snoc)
  show ?thesis
  proof (rule nth_equalityI)
    show "length (grouped (pre @ [r])) = length ((grouped pre)[i := grouped pre ! i @ [r]])"
      by (simp add: grouped_def names)
  next
    fix j assume "j < length (grouped (pre @ [r]))"
    then have j: "j < length ?names" by (simp add: grouped_def names)
    show "grouped (pre @ [r]) ! j = (grouped pre)[i := grouped pre ! i @ [r]] ! j"
    proof (cases "j = i")
      case True
      then show ?thesis using assms by (simp add: grouped_def names)
    next
      case False
      then have "?names ! j \<noteq> ChartName r"
        using assms j by (metis distinct_first_seen nth_eq_iff_index_eq)
      then show ?thesis using False j by (auto simp add: grouped_def names)
    qed
  qed
qed

lemma order_inv_lookup_None:
  assumes "order_inv order names"
  shows "(order c = None) = (c \<notin> set names)"
proof
  assume none: "order c = None"
  show "c \<notin> set names"
  proof
    assume "c \<in> set names"
    then obtain i where "i < length names" "names ! i = c"
      by (auto simp: in_set_conv_nth)
    with assms have "order c = Some i" by (simp add: order_inv_def)
    with none show False by simp
  qed
next
  assume fresh: "c \<notin> set names"
  show "order c = None"
  proof (cases "order c")
    case None
    then show ?thesis .
  next
    case (Some i)
    with assms have "i < length names" "names ! i = c" by (simp_all add: order_inv_def)
    then have "c \<in> set names" by auto
    with fresh show ?thesis by simp
  qed
qed

lemma order_inv_extend:
  assumes inv: "order_inv order names" and fresh: "c \<notin> set names"
  shows "order_inv (order(c \<mapsto> length names)) (names @ [c])"
  unfolding order_inv_def
proof (intro allI)
  fix d i
  show "((order(c \<mapsto> length names)) d = Some i) = (i < length (names @ [c]) \<and> (names @ [c]) ! i = d)"
  proof (cases "d = c")
    case True
    have "i < length names \<Longrightarrow> names ! i \<noteq> c"
      using fresh nth_mem by fastforce
    then show ?thesis using True by (auto simp: nth_append less_Suc_eq)
  next
    case False
    have "(order d = Some i) = (i < length names \<and> names ! i = d)"
      using inv by (simp add: order_inv_def)
    then show ?thesis using False by (auto simp: nth_append less_Suc_eq)
  qed
qed

lemma GroupByChart_loop_grouped:
  assumes "order_inv order (first_seen (map ChartName pre))"
  shows "GroupByChart_loop rs order (grouped pre) = Some (grouped (pre @ rs))"
  using assms
proof (induction rs arbitrary: pre order)
  case Nil
  show ?case by simp
next
  case (Cons r rs)
  let ?names = "first_seen (map ChartName pre)"
  have len: "length (grouped pre) = length ?names" by (simp add: grouped_def)
  show ?case
  proof (cases "order (ChartName r)")
    case None
    then have fresh: "ChartName r \<notin> set ?names"
      using Cons.prems order_inv_lookup_None by metis
    then have fresh': "ChartName r \<notin> ChartName ` set pre" by simp
    have inv': "order_inv (order(ChartName r \<mapsto> length ?names)) (first_seen (map ChartName (pre @ [r])))"
      using order_inv_extend [OF Cons.prems fresh] fresh by (simp add: first_seen_snoc)
    have "GroupByChart_loop (r # rs) order (grouped pre)
        = GroupByChart_loop rs (order(ChartName r \<mapsto> length ?names)) (grouped pre @ [[r]])"
      using None by (simp add: append_at_def Let_def nth_append len [symmetric])
    also have "\<dots> = GroupByChart_loop rs (order(ChartName r \<mapsto> length ?names)) (grouped (pre @ [r]))"
      by (simp add: grouped_snoc_new [OF fresh'])
    also have "\<dots> = Some (grouped ((pre @ [r]) @ rs))"
      by (rule Cons.IH [OF inv'])
    finally show ?thesis by simp
  next
    case (Some idx)
    then have idx: "idx < length ?names" "?names ! idx = ChartName r"
      using Cons.prems by (auto simp: order_inv_def)
    then have mem: "ChartName r \<in> ChartName ` set pre"
      by (metis nth_mem set_first_seen set_map)
    have inv': "order_inv order (first_seen (map ChartName (pre @ [r])))"
      using Cons.prems mem by (simp add: first_seen_snoc)
    have "GroupByChart_loop (r # rs) order (grouped pre)
        = GroupByChart_loop rs order ((grouped pre)[idx := grouped pre ! idx @ [r]])"
      using Some idx by (simp add: append_at_def len)
    also have "\<dots> = GroupByChart_loop rs order (grouped (pre @ [r]))"
      by (simp add: grouped_snoc_old [OF idx])
    also have "\<dots> = Some (grouped ((pre @ [r]) @ rs))"
      by (rule Cons.IH [OF inv'])
    finally show ?thesis by simp
  qed
qed

lemma GroupByChart_grouped: "GroupByChart rs = Some (grouped rs)"
  using GroupByChart_loop_grouped [of Map.empty "[]" rs]
  by (simp add: GroupByChart_def grouped_def order_inv_def)

lemma filter_chart_nonempty:
  "x \<in> set rs \<Longrightarrow> filter (\<lambda>r. ChartName r = ChartName x) rs \<noteq> []"
  by (auto simp: filter_empty_conv)

lemma filter_concat_groups:
  "distinct names \<Longrightarrow>
   filter (\<lambda>r. ChartName r = c) (concat (map (\<lambda>c'. filter (\<lambda>r. ChartName r = c') rs) names))
     = (if c \<in> set names then filter (\<lambda>r. ChartName r = c) rs else [])"
proof (induction names)
  case Nil
  show ?case by simp
next
  case (Cons n names)
  have same: "filter (\<lambda>r. ChartName r = c) (filter (\<lambda>r. ChartName r = n) rs)
      = (if c = n then filter (\<lambda>r. ChartName r = c) rs else [])"
    by (induction rs) auto
  have IH: "filter (\<lambda>r. ChartName r = c) (concat (map (\<lambda>c'. filter (\<lambda>r. ChartName r = c') rs) names))
     = (if c \<in> set names then filter (\<lambda>r. ChartName r = c) rs else [])"
    using Cons by simp
  have n: "n \<notin> set names" using Cons.prems by simp
  show ?case
  proof (cases "c = n")
    case True
    with n IH same show ?thesis by simp
  next
    case False
    with IH same show ?thesis by simp
  qed
qed

lemma filter_concat_grouped:
  "filter (\<lambda>r. ChartName r = c) (concat (grouped rs)) = filter (\<lambda>r. ChartName r = c) rs"
proof (cases "c \<in> ChartName ` set rs")
  case True
  then show ?thesis by (simp add: grouped_def filter_concat_groups)
next
  case False
  then have "filter (\<lambda>r. ChartName r = c) rs = []"
    by (auto simp: filter_empty_conv)
  with False show ?thesis by (simp add: grouped_def filter_concat_groups)
qed

lemma filter_mset_chart_split:
  "n \<notin> S \<Longrightarrow>
   filter_mset (\<lambda>r. ChartName r = n) M + filter_mset (\<lambda>r. ChartName r \<in> S) M
     = filter_mset (\<lambda>r. ChartName r = n \<or> ChartName r \<in> S) M"
  by (induction M) auto

lemma mset_concat_groups:
  "distinct names \<Longrightarrow>
   mset (concat (map (\<lambda>c. filter (\<lambda>r. ChartName r = c) rs) names))
     = filter_mset (\<lambda>r. ChartName r \<in> set names) (mset rs)"
proof (induction names)
  case Nil
  show ?case by simp
next
  case (Cons n names)
  then have n: "n \<notin> set names" by simp
  from Cons show ?case by (simp add: filter_mset_chart_split [OF n])
qed

lemma mset_concat_grouped: "mset (concat (grouped rs)) = mset rs"
proof -
  have "filter_mset (\<lambda>r. ChartName r \<in> ChartName ` set rs) (mset rs) = mset rs"
    by (rule filter_mset_eq_conv [THEN iffD2]) auto
  then show ?thesis
    by (simp add: grouped_def mset_concat_groups)
qed

lemma grouped_nonempty: "[] \<notin> set (grouped rs)"
  using filter_chart_nonempty by (fastforce simp: grouped_def)

lemma grouped_heads: "map (\<lambda>g. ChartName (hd g)) (grouped rs) = first_seen (map ChartName rs)"
proof -
  have head: "ChartName (hd (filter (\<lambda>r. ChartName r = c) rs)) = c"
    if "c \<in> set (first_seen (map ChartName rs))" for c
  proof -
    from that obtain x where "x \<in> set rs" "c = ChartName x" by auto
    then have "filter (\<lambda>r. ChartName r = c) rs \<noteq> []"
      using filter_chart_nonempty by simp
    then have "hd (filter (\<lambda>r. ChartName r = c) rs) \<in> set (filter (\<lambda>r. ChartName r = c) rs)"
      by (rule hd_in_set)
    then show ?thesis by simp
  qed
  show ?thesis
    unfolding grouped_def map_map comp_def
    by (rule map_idI) (rule head)
qed

lemma grouped_same_chart:
  assumes g: "g \<in> set (grouped rs)" and r: "r \<in> set g"
  shows "ChartName r = ChartName (hd g)"
proof -
  from g obtain c where c: "g = filter (\<lambda>r. ChartName r = c) rs"
    by (auto simp: grouped_def)
  from r have "g \<noteq> []" by auto
  then have "hd g \<in> set g" by (rule hd_in_set)
  with c r show ?thesis by simp
qed

text \<open>
  Claim C4. \<open>GroupByChart\<close> never panics, and its groups are exactly: one group per
  distinct chart name, the groups in the order in which the names first occur, each
  group holding all results of its name in their input order. Hence no group is empty,
  all members of a group share the chart name, restricting the flattened groups to one
  chart gives the same sequence as restricting the input (results of one chart are
  never reordered), and the flattened groups are a permutation of the input (nothing
  dropped or duplicated). A further result \<open>r\<close> opens a new last group when its name is
  new, and is appended to the existing group of its name otherwise.
\<close>

theorem GroupByChart_stable:
  "case GroupByChart results of
     None \<Rightarrow> False
   | Some groups \<Rightarrow>
       groups = map (\<lambda>c. filter (\<lambda>x. ChartName x = c) results) (first_seen (map ChartName results))
     \<and> map (\<lambda>g. ChartName (hd g)) groups = first_seen (map ChartName results)
     \<and> [] \<notin> set groups
     \<and> (\<forall>g \<in> set groups. \<forall>x \<in> set g. ChartName x = ChartName (hd g))
     \<and> (\<forall>c. filter (\<lambda>x. ChartName x = c) (concat groups) = filter (\<lambda>x. ChartName x = c) results)
     \<and> mset (concat groups) = mset results
     \<and> (ChartName r \<notin> ChartName ` set results \<longrightarrow>
          GroupByChart (results @ [r]) = Some (groups @ [[r]]))
     \<and> (\<forall>i < length groups. ChartName (hd (groups ! i)) = ChartName r \<longrightarrow>
          GroupByChart (results @ [r]) = Some (groups[i := groups ! i @ [r]]))"
proof -
  have new: "grouped (results @ [r]) = grouped results @ [[r]]"
    if "ChartName r \<notin> ChartName ` set results"
    using that by (rule grouped_snoc_new)
  have old: "grouped (results @ [r]) = (grouped results)[i := grouped results ! i @ [r]]"
    if "i < length (grouped results)" "ChartName (hd (grouped results ! i)) = ChartName r" for i
  proof -
    have len: "length (grouped results) = length (first_seen (map ChartName results))"
      by (simp add: grouped_def)
    have "map (\<lambda>g. ChartName (hd g)) (grouped results) ! i = first_seen (map ChartName results) ! i"
      by (simp add: grouped_heads)
    with that have "first_seen (map ChartName results) ! i = ChartName r" by simp
    with that(1) len show ?thesis by (simp add: grouped_snoc_old)
  qed
  have same: "\<forall>g \<in> set (grouped results). \<forall>x \<in> set g. ChartName x = ChartName (hd g)"
    using grouped_same_chart by blast
  have shape: "grouped results =
      map (\<lambda>c. filter (\<lambda>x. ChartName x = c) results) (first_seen (map ChartName results))"
    by (simp add: grouped_def)
  show ?thesis
    unfolding GroupByChart_grouped option.case
    using shape grouped_heads [of results] grouped_nonempty [of results] same
      filter_concat_grouped [of _ results] mset_concat_grouped [of results] new old
    by blast
qed

theorem GroupByChart_stable_witness:
  "GroupByChart
     [zero_DiffResult\<lparr>ChartName := ''a'', Environment := ''dev''\<rparr>,
      zero_DiffResult\<lparr>ChartName := ''b'', Environment := ''dev''\<rparr>,
      zero_DiffResult\<lparr>ChartName := ''a'', Environment := ''prod''\<rparr>]
   = Some [[zero_DiffResult\<lparr>ChartName := ''a'', Environment := ''dev''\<rparr>,
            zero_DiffResult\<lparr>ChartName := ''a'', Environment := ''prod''\<rparr>],
           [zero_DiffResult\<lparr>ChartName := ''b'', Environment := ''dev''\<rparr>]]
   \<and> ChartName (zero_DiffResult\<lparr>ChartName := ''b'', Environment := ''prod''\<rparr>) =
       ChartName (hd ([[zero_DiffResult\<lparr>ChartName := ''a'', Environment := ''dev''\<rparr>,
            zero_DiffResult\<lparr>ChartName := ''a'', Environment := ''prod''\<rparr>],
           [zero_DiffResult\<lparr>ChartName := ''b'', Environment := ''dev''\<rparr>]] ! 1))
   \<and> GroupByChart
     ([zero_DiffResult\<lparr>ChartName := ''a'', Environment := ''dev''\<rparr>,
      zero_DiffResult\<lparr>ChartName := ''b'', Environment := ''dev''\<rparr>,
      zero_DiffResult\<lparr>ChartName := ''a'', Environment := ''prod''\<rparr>]
      @ [zero_DiffResult\<lparr>ChartName := ''b'', Environment := ''prod''\<rparr>])
   = Some [[zero_DiffResult\<lparr>ChartName := ''a'', Environment := ''dev''\<rparr>,
            zero_DiffResult\<lparr>ChartName := ''a'', Environment := ''prod''\<rparr>],
           [zero_DiffResult\<lparr>ChartName := ''b'', Environment := ''dev''\<rparr>,
            zero_DiffResult\<lparr>ChartName := ''b'', Environment := ''prod''\<rparr>]]"
  using GroupByChart_stable
    [of "[zero_DiffResult\<lparr>ChartName := ''a'', Environment := ''dev''\<rparr>,
      zero_DiffResult\<lparr>ChartName := ''b'', Environment := ''dev''\<rparr>,
      zero_DiffResult\<lparr>ChartName := ''a'', Environment := ''prod''\<rparr>]"
     "zero_DiffResult\<lparr>ChartName := ''b'', Environment := ''prod''\<rparr>"]
  by (simp add: GroupByChart_def append_at_def zero_DiffResult_def)

subsection \<open>Errors\<close>

lemma errors_As_iff_wraps: "(errors_As_NotFoundError err \<noteq> None) = wraps_NotFoundError err"
proof (induction err)
  case (ErrorString msg)
  show ?case by (auto elim: wraps_NotFoundError.cases)
next
  case (NotFoundError resource ref)
  show ?case by (simp add: wraps_NotFoundError.intros)
next
  case (WrapError msg err)
  then show ?case by (auto intro: wraps_NotFoundError.intros elim: wraps_NotFoundError.cases)
qed

lemma containsAny_sublist: "containsAny s substrs = (\<exists>sub \<in> set substrs. sublist sub s)"
proof (induction substrs)
  case Nil
  show ?case by simp
next
  case (Cons sub substrs)
  have "(length sub \<le> length s \<and> list_ex (\<lambda>i. take (length sub) (drop i s) = sub) [0 ..< Suc (length s - length sub)])
      = sublist sub s"
  proof
    assume "length sub \<le> length s \<and> list_ex (\<lambda>i. take (length sub) (drop i s) = sub) [0 ..< Suc (length s - length sub)]"
    then obtain i where "take (length sub) (drop i s) = sub" unfolding list_ex_iff by blast
    then have "s = take i s @ sub @ drop (length sub) (drop i s)"
      by (metis append_take_drop_id)
    then show "sublist sub s" unfolding sublist_def by blast
  next
    assume "sublist sub s"
    then obtain ps ss where s: "s = ps @ sub @ ss" unfolding sublist_def by blast
    then have "take (length sub) (drop (length ps) s) = sub" by simp
    moreover have "length ps < Suc (length s - length sub)" "length sub \<le> length s" using s by auto
    ultimately show "length sub \<le> length s \<and> list_ex (\<lambda>i. take (length sub) (drop i s) = sub) [0 ..< Suc (length s - length sub)]"
      unfolding list_ex_iff by (auto simp del: upt_Suc)
  qed
  with Cons show ?case by auto
qed

text \<open>
  \<open>IsNotFound\<close> of internal/diff/domain/errors.go is the typed test and nothing
  else; the version with the fallback also accepts the three text patterns.
\<close>

lemma IsNotFound_typed_only:
  "IsNotFound err = (\<exists>e. err = Some e \<and> wraps_NotFoundError e)"
  "IsNotFound (Some (ErrorString msg)) = False"
  "IsNotFound (Some (WrapError msg (NewNotFoundError resource ref))) = True"
  by (cases err) (simp_all add: errors_As_iff_wraps NewNotFoundError_def del: not_None_eq)

lemma IsNotFound_with_fallback_iff:
  "IsNotFound_with_fallback err =
     (\<exists>e. err = Some e \<and>
        (wraps_NotFoundError e \<or> sublist ''not found'' (Error e)
         \<or> sublist ''no such file or directory'' (Error e) \<or> sublist ''404'' (Error e)))"
  by (cases err) (auto simp add: errors_As_iff_wraps containsAny_sublist simp del: containsAny.simps not_None_eq)

text \<open>
  Claim C3 says that \<open>IsNotFound\<close> holds exactly for a non-nil error that is or wraps
  a typed \<open>NotFoundError\<close>, and never because of the error's text. That is not so for
  the version of \<open>IsNotFound\<close> that keeps the text fallback: for the plain error
  \<open>errors.New("HTTP 404 Not Found")\<close>, which wraps no \<open>NotFoundError\<close>, it returns
  true, because the message contains \<open>404\<close>. The fallback is deliberate (its comment
  announces it, and its test expects true for this very error).
\<close>

theorem IsNotFound_fallback_text_match:
  "IsNotFound_with_fallback (Some (ErrorString ''HTTP 404 Not Found'')) = True
   \<and> \<not> wraps_NotFoundError (ErrorString ''HTTP 404 Not Found'')
   \<and> errors_As_NotFoundError (ErrorString ''HTTP 404 Not Found'') = None
   \<and> sublist ''404'' (Error (ErrorString ''HTTP 404 Not Found''))"
  by (simp add: sublist_code errors_As_iff_wraps [symmetric])

text \<open>
  Claim C3, amended. \<open>IsNotFound\<close> of internal/diff/domain/errors.go returns true if
  and only if the error is non-nil and is, or wraps, a typed \<open>NotFoundError\<close>; it never
  looks at the error text, so it returns false for every plain error, whatever its
  message. The version of \<open>IsNotFound\<close> with the backward-compatibility fallback
  returns true if and only if the error is non-nil and either is or wraps a typed
  \<open>NotFoundError\<close> or has a message that contains "not found", "no such file or
  directory" or "404".
\<close>

theorem IsNotFound_classification:
  "IsNotFound err = (\<exists>e. err = Some e \<and> wraps_NotFoundError e)
   \<and> IsNotFound None = False
   \<and> IsNotFound (Some (ErrorString msg)) = False
   \<and> IsNotFound_with_fallback err =
       (\<exists>e. err = Some e \<and>
          (wraps_NotFoundError e \<or> sublist ''not found'' (Error e)
           \<or> sublist ''no such file or directory'' (Error e) \<or> sublist ''404'' (Error e)))
   \<and> IsNotFound_with_fallback None = False
   \<and> IsNotFound_with_fallback (Some (ErrorString msg)) =
       (sublist ''not found'' msg \<or> sublist ''no such file or directory'' msg
        \<or> sublist ''404'' msg)"
proof -
  have plain: "\<not> wraps_NotFoundError (ErrorString msg)"
    by (simp add: errors_As_iff_wraps [symmetric])
  have "IsNotFound_with_fallback (Some (ErrorString msg)) =
       (sublist ''not found'' msg \<or> sublist ''no such file or directory'' msg
        \<or> sublist ''404'' msg)"
    unfolding IsNotFound_with_fallback_iff using plain by simp
  then show ?thesis
    using IsNotFound_typed_only(1) [of err] IsNotFound_typed_only(2) [of msg]
      IsNotFound_with_fallback_iff [of err]
    by simp
qed

theorem IsNotFound_classification_witness:
  "IsNotFound (Some (ErrorString ''HTTP 404 Not Found'')) = False
   \<and> IsNotFound_with_fallback (Some (ErrorString ''HTTP 404 Not Found'')) = True
   \<and> IsNotFound (Some (WrapError ''failed to fetch: '' (NewNotFoundError ''resource'' ''ref''))) = True
   \<and> IsNotFound_with_fallback
        (Some (WrapError ''failed to fetch: '' (NewNotFoundError ''resource'' ''ref''))) = True
   \<and> IsNotFound (Some (ErrorString ''permission denied'')) = False
   \<and> IsNotFound_with_fallback (Some (ErrorString ''permission denied'')) = False"
  using IsNotFound_classification [of "Some (ErrorString ''HTTP 404 Not Found'')" "''HTTP 404 Not Found''"]
    IsNotFound_classification
      [of "Some (WrapError ''failed to fetch: '' (NewNotFoundError ''resource'' ''ref''))"
          "''permission denied''"]
  by (simp add: sublist_code NewNotFoundError_def)

subsection \<open>Chart names\<close>

lemma genSplit_nonempty: "genSplit k sep t \<noteq> []"
  by (cases k) auto

lemma takeWhile_no_sep: "sep \<notin> set t \<Longrightarrow> takeWhile (\<lambda>c. c \<noteq> sep) t = t"
  by (rule takeWhile_eq_all_conv [THEN iffD2]) auto

lemma hd_genSplit_Suc: "hd (genSplit (Suc k) sep t) = takeWhile (\<lambda>c. c \<noteq> sep) t"
  by (simp add: takeWhile_no_sep)

lemma length_genSplit: "sep \<in> set s \<Longrightarrow> length (genSplit (Suc k) sep s) \<ge> 2"
  using genSplit_nonempty [of k sep "tl (dropWhile (\<lambda>c. c \<noteq> sep) s)"]
  by (cases "genSplit k sep (tl (dropWhile (\<lambda>c. c \<noteq> sep) s))") auto

lemma genSplit_second:
  assumes "sep \<in> set s"
  shows "genSplit (Suc (Suc k)) sep s ! 1 = takeWhile (\<lambda>c. c \<noteq> sep) (tl (dropWhile (\<lambda>c. c \<noteq> sep) s))"
proof -
  let ?rest = "tl (dropWhile (\<lambda>c. c \<noteq> sep) s)"
  have "genSplit (Suc (Suc k)) sep s ! 1 = genSplit (Suc k) sep ?rest ! 0"
    using assms by simp
  also have "\<dots> = hd (genSplit (Suc k) sep ?rest)"
    by (rule hd_conv_nth [symmetric]) (rule genSplit_nonempty)
  finally show ?thesis by (simp only: hd_genSplit_Suc)
qed

lemma count_list_split_at:
  assumes "sep \<in> set s"
  shows "count_list s sep = Suc (count_list (tl (dropWhile (\<lambda>c. c \<noteq> sep) s)) sep)"
  using assms by (induction s) auto

lemma Split_second:
  assumes "sep \<in> set s"
  shows "Split s sep ! 1 = takeWhile (\<lambda>c. c \<noteq> sep) (tl (dropWhile (\<lambda>c. c \<noteq> sep) s))"
proof -
  let ?rest = "tl (dropWhile (\<lambda>c. c \<noteq> sep) s)"
  let ?k = "count_list ?rest sep"
  have k: "count_list s sep = Suc ?k"
    using assms by (rule count_list_split_at)
  have "Split s sep ! 1 = genSplit ?k sep ?rest ! 0"
    using assms by (simp add: Split_def k)
  also have "\<dots> = hd (genSplit ?k sep ?rest)"
    by (rule hd_conv_nth [symmetric]) (rule genSplit_nonempty)
  also have "\<dots> = takeWhile (\<lambda>c. c \<noteq> sep) ?rest"
  proof (cases ?k)
    case 0
    then have "sep \<notin> set ?rest" by (simp add: count_list_0_iff)
    with 0 show ?thesis by (simp add: takeWhile_no_sep)
  next
    case (Suc j)
    then show ?thesis by (simp only: hd_genSplit_Suc)
  qed
  finally show ?thesis .
qed

lemma charts_prefix_split:
  assumes "prefix ''charts/'' f"
  shows "CHR ''/'' \<in> set f"
    and "tl (dropWhile (\<lambda>c. c \<noteq> CHR ''/'') f) = drop 7 f"
proof -
  from assms obtain rest where f: "f = ''charts/'' @ rest" by (auto simp: prefix_def)
  show "CHR ''/'' \<in> set f" by (simp add: f)
  show "tl (dropWhile (\<lambda>c. c \<noteq> CHR ''/'') f) = drop 7 f" by (simp add: f)
qed

lemma SplitN_3_second:
  assumes "prefix ''charts/'' f"
  shows "length (SplitN f (CHR ''/'') 3) \<ge> 2"
    and "SplitN f (CHR ''/'') 3 ! 1 = Split f (CHR ''/'') ! 1"
    and "Split f (CHR ''/'') ! 1 = takeWhile (\<lambda>c. c \<noteq> CHR ''/'') (drop 7 f)"
proof -
  note sl = charts_prefix_split [OF assms]
  have three: "SplitN f (CHR ''/'') 3 = genSplit (Suc (Suc 0)) (CHR ''/'') f"
    by (simp add: SplitN_def numeral_3_eq_3)
  show "length (SplitN f (CHR ''/'') 3) \<ge> 2"
    unfolding three using sl(1) by (rule length_genSplit)
  show snd: "Split f (CHR ''/'') ! 1 = takeWhile (\<lambda>c. c \<noteq> CHR ''/'') (drop 7 f)"
    using Split_second [OF sl(1)] sl(2) by simp
  show "SplitN f (CHR ''/'') 3 ! 1 = Split f (CHR ''/'') ! 1"
    unfolding three snd using genSplit_second [OF sl(1), of 0] sl(2) by simp
qed

lemma ExtractChartNames_loop_step:
  "ExtractChartNames_loop (f # files) seen names =
     (case chart_of_path f of
        None \<Rightarrow> ExtractChartNames_loop files seen names
      | Some name \<Rightarrow>
          if name \<in> seen then ExtractChartNames_loop files seen names
          else ExtractChartNames_loop files (insert name seen) (names @ [name]))"
proof (cases "prefix ''charts/'' f")
  case False
  then show ?thesis by (simp add: HasPrefix_def chart_of_path_def)
next
  case True
  note s = SplitN_3_second [OF True]
  have len: "\<not> length (SplitN f (CHR ''/'') 3) < 2" using s(1) by simp
  have eq: "SplitN f (CHR ''/'') 3 ! Suc 0 = Split f (CHR ''/'') ! Suc 0" using s(2) by simp
  show ?thesis
    using True len by (simp add: HasPrefix_def chart_of_path_def Let_def eq)
qed

lemma ExtractChartNames_loop_first_seen:
  assumes "seen = set names" "distinct names"
  shows "ExtractChartNames_loop files seen names
       = names @ filter (\<lambda>n. n \<notin> set names) (first_seen (List.map_filter chart_of_path files))"
  using assms
proof (induction files arbitrary: seen names)
  case Nil
  show ?case by (simp add: List.map_filter_simps)
next
  case (Cons f files)
  show ?case
  proof (cases "chart_of_path f")
    case None
    then show ?thesis
      using Cons by (simp add: ExtractChartNames_loop_step List.map_filter_simps del: ExtractChartNames_loop.simps)
  next
    case (Some name)
    show ?thesis
    proof (cases "name \<in> seen")
      case True
      have "filter (\<lambda>n. n \<notin> set names) (filter (\<lambda>y. y \<noteq> name) xs) = filter (\<lambda>n. n \<notin> set names) xs" for xs
        using True Cons.prems(1) by (auto intro: filter_cong)
      then show ?thesis
        using Some True Cons
        by (simp add: ExtractChartNames_loop_step List.map_filter_simps del: ExtractChartNames_loop.simps)
    next
      case False
      have "filter (\<lambda>n. n \<notin> set (names @ [name])) xs
          = filter (\<lambda>n. n \<notin> set names) (filter (\<lambda>y. y \<noteq> name) xs)" for xs
        by (auto intro: filter_cong)
      moreover have "ExtractChartNames_loop files (insert name seen) (names @ [name])
          = (names @ [name]) @ filter (\<lambda>n. n \<notin> set (names @ [name])) (first_seen (List.map_filter chart_of_path files))"
        using False Cons.prems by (intro Cons.IH) auto
      ultimately show ?thesis
        using Some False Cons.prems
        by (simp add: ExtractChartNames_loop_step List.map_filter_simps del: ExtractChartNames_loop.simps)
    qed
  qed
qed

lemma ExtractChartNames_first_seen:
  "ExtractChartNames files = first_seen (List.map_filter chart_of_path files)"
  by (simp add: ExtractChartNames_def ExtractChartNames_loop_first_seen)

lemma chart_of_path_charts:
  "chart_of_path (''charts/'' @ rest) =
     (if takeWhile (\<lambda>c. c \<noteq> CHR ''/'') rest = [] then None
      else Some (takeWhile (\<lambda>c. c \<noteq> CHR ''/'') rest))"
proof -
  have p: "prefix ''charts/'' (''charts/'' @ rest)" by (rule prefixI) simp
  have "Split (''charts/'' @ rest) (CHR ''/'') ! 1 = takeWhile (\<lambda>c. c \<noteq> CHR ''/'') rest"
    using SplitN_3_second(3) [OF p] by simp
  then show ?thesis using p by (simp add: chart_of_path_def)
qed

text \<open>
  Claim C10. \<open>ExtractChartNames\<close> returns the names contributed by the paths, in
  first-occurrence order and without duplicates. A path contributes a name exactly when
  it starts with \<open>charts/\<close> and its second slash-separated segment is non-empty, and
  the name is that segment (the text after \<open>charts/\<close> up to the next slash or the end).
  Paths outside \<open>charts/\<close>, the path \<open>charts/\<close> and paths \<open>charts//...\<close> contribute
  nothing; \<open>charts/foo\<close> contributes \<open>foo\<close>, with or without further components.
\<close>

theorem ExtractChartNames_first_occurrence:
  "ExtractChartNames files = first_seen (List.map_filter chart_of_path files)
   \<and> distinct (ExtractChartNames files)
   \<and> set (ExtractChartNames files) = {n. \<exists>f \<in> set files. chart_of_path f = Some n}
   \<and> (chart_of_path f = Some n) =
       (prefix ''charts/'' f \<and> Split f (CHR ''/'') ! 1 = n \<and> n \<noteq> [])
   \<and> (prefix ''charts/'' f \<longrightarrow>
        Split f (CHR ''/'') ! 1 = takeWhile (\<lambda>c. c \<noteq> CHR ''/'') (drop 7 f))
   \<and> (\<not> prefix ''charts/'' f \<longrightarrow> chart_of_path f = None)
   \<and> chart_of_path ''charts/'' = None
   \<and> chart_of_path (''charts//'' @ rest) = None
   \<and> (name \<noteq> [] \<and> CHR ''/'' \<notin> set name \<longrightarrow>
        chart_of_path (''charts/'' @ name) = Some name
        \<and> chart_of_path (''charts/'' @ name @ ''/'' @ rest) = Some name)"
proof (intro conjI impI)
  show eq: "ExtractChartNames files = first_seen (List.map_filter chart_of_path files)"
    by (rule ExtractChartNames_first_seen)
  show "distinct (ExtractChartNames files)"
    unfolding eq by (rule distinct_first_seen)
  show "set (ExtractChartNames files) = {n. \<exists>f \<in> set files. chart_of_path f = Some n}"
    unfolding eq by (force simp: List.map_filter_def image_iff)
  show "(chart_of_path f = Some n) = (prefix ''charts/'' f \<and> Split f (CHR ''/'') ! 1 = n \<and> n \<noteq> [])"
    by (auto simp: chart_of_path_def)
  show "Split f (CHR ''/'') ! 1 = takeWhile (\<lambda>c. c \<noteq> CHR ''/'') (drop 7 f)" if "prefix ''charts/'' f"
    using that by (rule SplitN_3_second(3))
  show "chart_of_path f = None" if "\<not> prefix ''charts/'' f"
    using that by (simp add: chart_of_path_def)
  show "chart_of_path ''charts/'' = None"
    using chart_of_path_charts [of "[]"] by simp
  show "chart_of_path (''charts//'' @ rest) = None"
    using chart_of_path_charts [of "''/'' @ rest"] by simp
next
  assume n: "name \<noteq> [] \<and> CHR ''/'' \<notin> set name"
  then have tw: "takeWhile (\<lambda>c. c \<noteq> CHR ''/'') name = name" by (simp add: takeWhile_no_sep)
  from n tw show "chart_of_path (''charts/'' @ name) = Some name"
    by (simp only: chart_of_path_charts) simp
  have "\<forall>x \<in> set name. x \<noteq> CHR ''/''" using n by auto
  then have "takeWhile (\<lambda>c. c \<noteq> CHR ''/'') (name @ ''/'' @ rest) = name"
    by (simp add: takeWhile_tail)
  with n show "chart_of_path (''charts/'' @ name @ ''/'' @ rest) = Some name"
    by (simp only: chart_of_path_charts) simp
qed

theorem ExtractChartNames_first_occurrence_witness:
  "ExtractChartNames
     [''charts/foo/values.yaml'', ''README.md'', ''charts/bar/templates/x.yaml'',
      ''charts/foo/Chart.yaml'', ''charts/'', ''charts//x'', ''charts/baz'', ''xcharts/q/z'']
     = [''foo'', ''bar'', ''baz'']
   \<and> prefix ''charts/'' ''charts/baz''
   \<and> Split ''charts/baz'' (CHR ''/'') ! 1 = ''baz''
   \<and> \<not> prefix ''charts/'' ''README.md''
   \<and> chart_of_path ''README.md'' = None
   \<and> (''foo'' \<noteq> [] \<and> CHR ''/'' \<notin> set ''foo'')
   \<and> chart_of_path (''charts/'' @ ''foo'') = Some ''foo''"
  using ExtractChartNames_first_occurrence
     [of "[''charts/foo/values.yaml'', ''README.md'', ''charts/bar/templates/x.yaml'',
      ''charts/foo/Chart.yaml'', ''charts/'', ''charts//x'', ''charts/baz'', ''xcharts/q/z'']"
       "''charts/baz''" "''baz''" "[]" "''foo''"]
     ExtractChartNames_first_occurrence [of "[]" "''README.md''" "[]" "[]" "''foo''"]
  by (simp add: ExtractChartNames_def HasPrefix_def SplitN_def Split_def chart_of_path_def
        numeral_3_eq_3)

subsection \<open>Reports\<close>
lemma count_changed_counts:
  "count_changed rs (c, u) =
     (c + length (filter (\<lambda>r. Status r = StatusChanges) rs),
      u + length (filter (\<lambda>r. Status r \<noteq> StatusChanges) rs))"
  by (induction rs arbitrary: c u) simp_all

lemma changed_positive_iff:
  "(0 < fst (count_changed rs (0, 0))) = (\<exists>r \<in> set rs. Status r = StatusChanges)"
  by (simp add: count_changed_counts filter_empty_conv)

lemma prefix_check_run_section: "prefix sb (check_run_section i r sb)"
  by (simp add: check_run_section_def Let_def)

lemma prefix_check_run_sections: "prefix sb (check_run_sections i rs sb)"
proof (induction rs arbitrary: i sb)
  case Nil
  show ?case by simp
next
  case (Cons r rs)
  have "prefix sb (check_run_section i r sb)" by (rule prefix_check_run_section)
  also have "prefix (check_run_section i r sb) (check_run_sections (i + 1) rs (check_run_section i r sb))"
    by (rule Cons.IH)
  finally show ?case by simp
qed

lemma formatCheckRunMarkdown_header:
  assumes "results \<noteq> []"
  shows "prefix
     (''# chart-sentry: '' @ ChartName (hd results) @ ''\<newline>\<newline>''
      @ ''**Status:** completed\<newline>''
      @ ''**Conclusion:** ''
      @ (if \<exists>r \<in> set results. Status r = StatusChanges then ''neutral'' else ''success'')
      @ ''\<newline>\<newline>'' @ ''## Helm diff '')
     (formatCheckRunMarkdown results)"
proof -
  obtain changed unchanged where cu: "count_changed results (0, 0) = (changed, unchanged)"
    by (cases "count_changed results (0, 0)")
  have token: "conclusion_of changed =
      (if \<exists>r \<in> set results. Status r = StatusChanges then ''neutral'' else ''success'')"
    using changed_positive_iff [of results] cu by (simp add: conclusion_of_def)
  let ?head = "''# chart-sentry: '' @ ChartName (hd results) @ ''\<newline>\<newline>''
      @ ''**Status:** completed\<newline>''
      @ ''**Conclusion:** ''
      @ (if \<exists>r \<in> set results. Status r = StatusChanges then ''neutral'' else ''success'')
      @ ''\<newline>\<newline>'' @ ''## Helm diff ''"
  let ?rest = "em_dash @ '' '' @ ChartName (hd results) @ ''\<newline>\<newline>''
               @ ''### Summary\<newline>''
               @ ''Analyzed '' @ itoa (length results) @ '' environment(s): '' @ itoa changed
               @ '' changed, '' @ itoa unchanged @ '' unchanged\<newline>\<newline>''
               @ ''### Output\<newline>''"
  have doc: "formatCheckRunMarkdown results = check_run_sections 0 results (?head @ ?rest)"
    using assms cu by (simp add: formatCheckRunMarkdown_def Let_def token)
  have "prefix ?head (?head @ ?rest)" by (rule prefixI) simp
  also have "prefix (?head @ ?rest) (check_run_sections 0 results (?head @ ?rest))"
    by (rule prefix_check_run_sections)
  finally show ?thesis unfolding doc .
qed

lemma pr_table_rows_concat:
  "pr_table_rows rs sb = sb @ concat (map (\<lambda>r. ''| '' @ ChartName r @ '' | '' @ Environment r @ '' | ''
        @ (if Status r = StatusChanges then ''Changed'' else ''No Changes'') @ '' |\<newline>'') rs)"
  by (induction rs arbitrary: sb) (simp_all add: Let_def)

lemma pr_detail_sections_concat:
  "pr_detail_sections rs sb = sb @ concat (map (\<lambda>r.
        ''### '' @ ChartName r @ ''/'' @ Environment r @ ''\<newline>''
        @ (if Status r \<noteq> StatusChanges then ''No changes detected.\<newline>\<newline>''
           else ''<details><summary>View diff</summary>\<newline>\<newline>''
                @ ''```diff\<newline>'' @ PreferredDiff r @ ''\<newline>```\<newline>''
                @ ''</details>\<newline>\<newline>'')) rs)"
  by (induction rs arbitrary: sb) (simp_all add: Let_def PreferredDiff_def)

lemma formatPRComment_structure:
  "formatPRComment results =
     ''## Chart-Sentry Diff Report\<newline>\<newline>''
     @ ''| Chart | Environment | Status |\<newline>''
     @ ''|-------|-------------|--------|\<newline>''
     @ concat (map (\<lambda>r. ''| '' @ ChartName r @ '' | '' @ Environment r @ '' | ''
        @ (if Status r = StatusChanges then ''Changed'' else ''No Changes'') @ '' |\<newline>'') results)
     @ ''\<newline>''
     @ concat (map (\<lambda>r.
        ''### '' @ ChartName r @ ''/'' @ Environment r @ ''\<newline>''
        @ (if Status r \<noteq> StatusChanges then ''No changes detected.\<newline>\<newline>''
           else ''<details><summary>View diff</summary>\<newline>\<newline>''
                @ ''```diff\<newline>'' @ PreferredDiff r @ ''\<newline>```\<newline>''
                @ ''</details>\<newline>\<newline>'')) results)"
  unfolding formatPRComment_def Let_def pr_detail_sections_concat pr_table_rows_concat
  by simp

text \<open>
  Claim C5. The check-run document of a group of results for one chart (a non-empty
  sequence; for the empty sequence the function returns the empty document) starts with
  the chart heading, the status line and the line \<open>**Conclusion:** \<close> followed by the
  token \<open>neutral\<close> if some result of the group has status \<open>StatusChanges\<close> and by
  \<open>success\<close> otherwise. In particular a group whose results are all \<open>StatusSuccess\<close>
  or \<open>StatusError\<close> gets \<open>success\<close>.
\<close>

theorem check_run_conclusion:
  "formatCheckRunMarkdown [] = []
   \<and> (results \<noteq> [] \<longrightarrow>
        prefix
          (''# chart-sentry: '' @ ChartName (hd results) @ ''\<newline>\<newline>''
           @ ''**Status:** completed\<newline>''
           @ ''**Conclusion:** ''
           @ (if \<exists>r \<in> set results. Status r = StatusChanges then ''neutral'' else ''success'')
           @ ''\<newline>\<newline>'' @ ''## Helm diff '')
          (formatCheckRunMarkdown results))
   \<and> (results \<noteq> [] \<and> (\<forall>r \<in> set results. Status r = StatusSuccess \<or> Status r = StatusError) \<longrightarrow>
        prefix
          (''# chart-sentry: '' @ ChartName (hd results) @ ''\<newline>\<newline>''
           @ ''**Status:** completed\<newline>''
           @ ''**Conclusion:** success\<newline>\<newline>'' @ ''## Helm diff '')
          (formatCheckRunMarkdown results))"
proof (intro conjI impI)
  show "formatCheckRunMarkdown [] = []" by (simp add: formatCheckRunMarkdown_def)
next
  assume "results \<noteq> []"
  then show "prefix
          (''# chart-sentry: '' @ ChartName (hd results) @ ''\<newline>\<newline>''
           @ ''**Status:** completed\<newline>''
           @ ''**Conclusion:** ''
           @ (if \<exists>r \<in> set results. Status r = StatusChanges then ''neutral'' else ''success'')
           @ ''\<newline>\<newline>'' @ ''## Helm diff '')
          (formatCheckRunMarkdown results)"
    by (rule formatCheckRunMarkdown_header)
next
  assume a: "results \<noteq> [] \<and> (\<forall>r \<in> set results. Status r = StatusSuccess \<or> Status r = StatusError)"
  then have none: "\<not> (\<exists>r \<in> set results. Status r = StatusChanges)" by auto
  from a have "results \<noteq> []" by simp
  from formatCheckRunMarkdown_header [OF this] none
  show "prefix
          (''# chart-sentry: '' @ ChartName (hd results) @ ''\<newline>\<newline>''
           @ ''**Status:** completed\<newline>''
           @ ''**Conclusion:** success\<newline>\<newline>'' @ ''## Helm diff '')
          (formatCheckRunMarkdown results)"
    by simp
qed

theorem check_run_conclusion_witness:
  "[zero_DiffResult\<lparr>ChartName := ''my-app'', Environment := ''dev''\<rparr>,
    zero_DiffResult\<lparr>ChartName := ''my-app'', Environment := ''prod'', Status := StatusError\<rparr>] \<noteq> []
   \<and> prefix ''# chart-sentry: my-app\<newline>\<newline>**Status:** completed\<newline>**Conclusion:** success\<newline>\<newline>## Helm diff ''
       (formatCheckRunMarkdown
         [zero_DiffResult\<lparr>ChartName := ''my-app'', Environment := ''dev''\<rparr>,
          zero_DiffResult\<lparr>ChartName := ''my-app'', Environment := ''prod'', Status := StatusError\<rparr>])
   \<and> prefix ''# chart-sentry: my-app\<newline>\<newline>**Status:** completed\<newline>**Conclusion:** neutral\<newline>\<newline>## Helm diff ''
       (formatCheckRunMarkdown
         [zero_DiffResult\<lparr>ChartName := ''my-app'', Environment := ''dev'', Status := StatusError\<rparr>,
          zero_DiffResult\<lparr>ChartName := ''my-app'', Environment := ''prod'', Status := StatusChanges,
                            UnifiedDiff := ''+replicas: 5''\<rparr>])"
  using check_run_conclusion
     [of "[zero_DiffResult\<lparr>ChartName := ''my-app'', Environment := ''dev''\<rparr>,
          zero_DiffResult\<lparr>ChartName := ''my-app'', Environment := ''prod'', Status := StatusError\<rparr>]"]
    check_run_conclusion
     [of "[zero_DiffResult\<lparr>ChartName := ''my-app'', Environment := ''dev'', Status := StatusError\<rparr>,
          zero_DiffResult\<lparr>ChartName := ''my-app'', Environment := ''prod'', Status := StatusChanges,
                            UnifiedDiff := ''+replicas: 5''\<rparr>]"]
  by (simp add: zero_DiffResult_def)

text \<open>
  Claim C6. The summary document is the heading and table header, then one table row
  per input result in input order, a blank line, and the detail sections. The row of a
  result shows its chart, its environment and the label \<open>Changed\<close> when the status is
  \<open>StatusChanges\<close>, \<open>No Changes\<close> for every other status; each further result adds
  exactly its own row and its own detail section. A \<open>StatusError\<close> result shows as
  \<open>No Changes\<close> and its detail section reads "No changes detected.".
\<close>

theorem pr_comment_table:
  "formatPRComment results =
     ''## Chart-Sentry Diff Report\<newline>\<newline>''
     @ ''| Chart | Environment | Status |\<newline>''
     @ ''|-------|-------------|--------|\<newline>''
     @ concat (map (\<lambda>r. ''| '' @ ChartName r @ '' | '' @ Environment r @ '' | ''
        @ (if Status r = StatusChanges then ''Changed'' else ''No Changes'') @ '' |\<newline>'') results)
     @ ''\<newline>''
     @ pr_detail_sections results []
   \<and> (Status r = StatusError \<longrightarrow>
        formatPRComment [r] =
          ''## Chart-Sentry Diff Report\<newline>\<newline>''
          @ ''| Chart | Environment | Status |\<newline>''
          @ ''|-------|-------------|--------|\<newline>''
          @ ''| '' @ ChartName r @ '' | '' @ Environment r @ '' | No Changes |\<newline>''
          @ ''\<newline>''
          @ ''### '' @ ChartName r @ ''/'' @ Environment r @ ''\<newline>''
          @ ''No changes detected.\<newline>\<newline>'')
   \<and> (Status r \<noteq> StatusChanges \<longrightarrow>
        pr_table_rows [r] [] = ''| '' @ ChartName r @ '' | '' @ Environment r @ '' | No Changes |\<newline>''
        \<and> pr_detail_sections [r] [] =
            ''### '' @ ChartName r @ ''/'' @ Environment r @ ''\<newline>'' @ ''No changes detected.\<newline>\<newline>'')
   \<and> (Status r = StatusChanges \<longrightarrow>
        pr_table_rows [r] [] = ''| '' @ ChartName r @ '' | '' @ Environment r @ '' | Changed |\<newline>'')
   \<and> pr_table_rows (rs @ [r]) [] = pr_table_rows rs [] @ pr_table_rows [r] []
   \<and> pr_detail_sections (rs @ [r]) [] = pr_detail_sections rs [] @ pr_detail_sections [r] []"
  by (simp add: formatPRComment_structure pr_detail_sections_concat pr_table_rows_concat
        del: pr_table_rows.simps pr_detail_sections.simps)

theorem pr_comment_table_witness:
  "Status (zero_DiffResult\<lparr>ChartName := ''my-app'', Environment := ''prod'', Status := StatusError,
                            Summary := ''render failed''\<rparr>) = StatusError
   \<and> formatPRComment [zero_DiffResult\<lparr>ChartName := ''my-app'', Environment := ''prod'',
                                        Status := StatusError, Summary := ''render failed''\<rparr>] =
       ''## Chart-Sentry Diff Report\<newline>\<newline>| Chart | Environment | Status |\<newline>|-------|-------------|--------|\<newline>| my-app | prod | No Changes |\<newline>\<newline>### my-app/prod\<newline>No changes detected.\<newline>\<newline>''"
  using pr_comment_table
     [of "[]" "zero_DiffResult\<lparr>ChartName := ''my-app'', Environment := ''prod'', Status := StatusError,
                            Summary := ''render failed''\<rparr>"]
  by (simp add: zero_DiffResult_def)

text \<open>
  Claim C7. \<open>PreferredDiff\<close> is the semantic diff when that is non-empty and the
  unified diff otherwise (so the empty string when both are empty). The detail section
  of a result in the summary document shows, inside its one \<open>diff\<close> block, exactly the
  preferred diff: the semantic diff if present, else the unified diff, never both.
\<close>

theorem pr_comment_preferred_diff:
  "PreferredDiff r = (if SemanticDiff r \<noteq> [] then SemanticDiff r else UnifiedDiff r)
   \<and> (SemanticDiff r = [] \<and> UnifiedDiff r = [] \<longrightarrow> PreferredDiff r = [])
   \<and> pr_detail_sections results [] =
       concat (map (\<lambda>r.
          ''### '' @ ChartName r @ ''/'' @ Environment r @ ''\<newline>''
          @ (if Status r \<noteq> StatusChanges then ''No changes detected.\<newline>\<newline>''
             else ''<details><summary>View diff</summary>\<newline>\<newline>''
                  @ ''```diff\<newline>'' @ PreferredDiff r @ ''\<newline>```\<newline>''
                  @ ''</details>\<newline>\<newline>'')) results)
   \<and> formatPRComment results = pr_table_rows results
         (''## Chart-Sentry Diff Report\<newline>\<newline>''
          @ ''| Chart | Environment | Status |\<newline>''
          @ ''|-------|-------------|--------|\<newline>'') @ ''\<newline>'' @ pr_detail_sections results []
   \<and> (Status r = StatusChanges \<and> SemanticDiff r \<noteq> [] \<longrightarrow>
        pr_detail_sections [r] [] =
          ''### '' @ ChartName r @ ''/'' @ Environment r @ ''\<newline>''
          @ ''<details><summary>View diff</summary>\<newline>\<newline>''
          @ ''```diff\<newline>'' @ SemanticDiff r @ ''\<newline>```\<newline>''
          @ ''</details>\<newline>\<newline>'')
   \<and> (Status r = StatusChanges \<and> SemanticDiff r = [] \<longrightarrow>
        pr_detail_sections [r] [] =
          ''### '' @ ChartName r @ ''/'' @ Environment r @ ''\<newline>''
          @ ''<details><summary>View diff</summary>\<newline>\<newline>''
          @ ''```diff\<newline>'' @ UnifiedDiff r @ ''\<newline>```\<newline>''
          @ ''</details>\<newline>\<newline>'')"
  by (simp add: formatPRComment_def pr_detail_sections_concat pr_table_rows_concat PreferredDiff_def
        del: pr_table_rows.simps pr_detail_sections.simps)

theorem pr_comment_preferred_diff_witness:
  "(Status (zero_DiffResult\<lparr>ChartName := ''my-app'', Environment := ''prod'', Status := StatusChanges,
                            UnifiedDiff := ''-replicas: 3'', SemanticDiff := ''spec.replicas''\<rparr>) = StatusChanges
    \<and> SemanticDiff (zero_DiffResult\<lparr>ChartName := ''my-app'', Environment := ''prod'', Status := StatusChanges,
                            UnifiedDiff := ''-replicas: 3'', SemanticDiff := ''spec.replicas''\<rparr>) \<noteq> [])
   \<and> pr_detail_sections [zero_DiffResult\<lparr>ChartName := ''my-app'', Environment := ''prod'', Status := StatusChanges,
                            UnifiedDiff := ''-replicas: 3'', SemanticDiff := ''spec.replicas''\<rparr>] [] =
       ''### my-app/prod\<newline><details><summary>View diff</summary>\<newline>\<newline>```diff\<newline>spec.replicas\<newline>```\<newline></details>\<newline>\<newline>''
   \<and> PreferredDiff (zero_DiffResult\<lparr>UnifiedDiff := ''-replicas: 3''\<rparr>) = ''-replicas: 3''"
  using pr_comment_preferred_diff
     [of "zero_DiffResult\<lparr>ChartName := ''my-app'', Environment := ''prod'', Status := StatusChanges,
                            UnifiedDiff := ''-replicas: 3'', SemanticDiff := ''spec.replicas''\<rparr>" "[]"]
     pr_comment_preferred_diff [of "zero_DiffResult\<lparr>UnifiedDiff := ''-replicas: 3''\<rparr>" "[]"]
  by (simp add: zero_DiffResult_def)

subsection \<open>The status invariant of the runner\<close>

lemma make_result_invariant:
  "(Status (make_result chart envName baseRef headRef sem uni) = StatusSuccess \<longrightarrow> sem = [] \<and> uni = [])
   \<and> (Status (make_result chart envName baseRef headRef sem uni) = StatusChanges \<longrightarrow> sem \<noteq> [] \<or> uni \<noteq> [])
   \<and> Status (make_result chart envName baseRef headRef sem uni) \<noteq> StatusError
   \<and> UnifiedDiff (make_result chart envName baseRef headRef sem uni) = uni
   \<and> SemanticDiff (make_result chart envName baseRef headRef sem uni) = sem"
  by (simp add: make_result_def classify_def)

lemma RunEnvironment_invariant:
  fixes render semanticDiff unifiedDiff chart baseRef headRef env
  defines "r \<equiv> RunEnvironment render semanticDiff unifiedDiff chart baseRef headRef env"
  shows "(Status r = StatusSuccess \<longrightarrow> UnifiedDiff r = [] \<and> SemanticDiff r = [])
   \<and> (Status r = StatusChanges \<longrightarrow> UnifiedDiff r \<noteq> [] \<or> SemanticDiff r \<noteq> [])
   \<and> (Status r = StatusError \<longrightarrow>
        UnifiedDiff r = [] \<and> SemanticDiff r = []
        \<and> (render baseRef env = RenderFailed (Summary r)
            \<or> render headRef env = RenderFailed (Summary r)))"
proof (cases "manifest_of (render baseRef env)")
  case (Inl failure)
  then have "render baseRef env = RenderFailed failure"
    by (auto simp: manifest_of_def split: render_outcome.splits)
  with Inl show ?thesis by (simp add: r_def RunEnvironment_def error_result_def)
next
  case base: (Inr baseManifest)
  show ?thesis
  proof (cases "manifest_of (render headRef env)")
    case (Inl failure)
    then have "render headRef env = RenderFailed failure"
      by (auto simp: manifest_of_def split: render_outcome.splits)
    with Inl base show ?thesis by (simp add: r_def RunEnvironment_def error_result_def)
  next
    case (Inr headManifest)
    with base have "r = make_result chart (Name env) baseRef headRef
        (semanticDiff (FormatDiffLabel chart (Name env) baseRef) (FormatDiffLabel chart (Name env) headRef)
           baseManifest headManifest)
        (unifiedDiff (FormatDiffLabel chart (Name env) baseRef) (FormatDiffLabel chart (Name env) headRef)
           baseManifest headManifest)"
      by (simp add: r_def RunEnvironment_def Let_def)
    then show ?thesis using make_result_invariant by metis
  qed
qed

text \<open>
  Claim C2. Every result the runner produces satisfies the status invariant: with
  \<open>StatusSuccess\<close> both diff strings are empty; with \<open>StatusChanges\<close> at least one is
  non-empty; with \<open>StatusError\<close> both are empty and the summary is the description of
  the failure of one of the environment's renderings.
\<close>

theorem pipeline_status_invariant:
  "\<forall>r \<in> set (RunChart render semanticDiff unifiedDiff chart baseRef headRef environments).
     (Status r = StatusSuccess \<longrightarrow> UnifiedDiff r = [] \<and> SemanticDiff r = [])
   \<and> (Status r = StatusChanges \<longrightarrow> UnifiedDiff r \<noteq> [] \<or> SemanticDiff r \<noteq> [])
   \<and> (Status r = StatusError \<longrightarrow>
        UnifiedDiff r = [] \<and> SemanticDiff r = []
        \<and> (\<exists>env \<in> set environments.
              render baseRef env = RenderFailed (Summary r)
              \<or> render headRef env = RenderFailed (Summary r)))"
proof
  fix r
  assume "r \<in> set (RunChart render semanticDiff unifiedDiff chart baseRef headRef environments)"
  then obtain env where env: "env \<in> set environments"
    and r: "r = RunEnvironment render semanticDiff unifiedDiff chart baseRef headRef env"
    by (auto simp: RunChart_def)
  from RunEnvironment_invariant [of render semanticDiff unifiedDiff chart baseRef headRef env] env
  show "(Status r = StatusSuccess \<longrightarrow> UnifiedDiff r = [] \<and> SemanticDiff r = [])
   \<and> (Status r = StatusChanges \<longrightarrow> UnifiedDiff r \<noteq> [] \<or> SemanticDiff r \<noteq> [])
   \<and> (Status r = StatusError \<longrightarrow>
        UnifiedDiff r = [] \<and> SemanticDiff r = []
        \<and> (\<exists>env \<in> set environments.
              render baseRef env = RenderFailed (Summary r)
              \<or> render headRef env = RenderFailed (Summary r)))"
    unfolding r by blast
qed

theorem pipeline_status_invariant_witness:
  "map Status
     (RunChart
        (\<lambda>ref env. if Name env = ''prod'' then RenderFailed ''template error''
                    else if Name env = ''dev'' then Rendered ''replicas: 3''
                    else if ref = ''main'' then ChartNotFound else Rendered ''kind: ConfigMap'')
        (\<lambda>baseName headName base head. [])
        (\<lambda>baseName headName base head. if base = head then [] else ''+'' @ head)
        ''my-app'' ''main'' ''feat''
        [\<lparr>Name = ''dev'', ValueFiles = [''values.yaml'']\<rparr>,
         \<lparr>Name = ''prod'', ValueFiles = [''values.yaml'', ''prod.yaml'']\<rparr>,
         \<lparr>Name = ''new'', ValueFiles = []\<rparr>])
     = [StatusSuccess, StatusError, StatusChanges]
   \<and> map (\<lambda>r. (SemanticDiff r, UnifiedDiff r, Summary r))
     (RunChart
        (\<lambda>ref env. if Name env = ''prod'' then RenderFailed ''template error''
                    else if Name env = ''dev'' then Rendered ''replicas: 3''
                    else if ref = ''main'' then ChartNotFound else Rendered ''kind: ConfigMap'')
        (\<lambda>baseName headName base head. [])
        (\<lambda>baseName headName base head. if base = head then [] else ''+'' @ head)
        ''my-app'' ''main'' ''feat''
        [\<lparr>Name = ''dev'', ValueFiles = [''values.yaml'']\<rparr>,
         \<lparr>Name = ''prod'', ValueFiles = [''values.yaml'', ''prod.yaml'']\<rparr>,
         \<lparr>Name = ''new'', ValueFiles = []\<rparr>])
     = [([], [], ''No changes detected.''),
        ([], [], ''template error''),
        ([], ''+kind: ConfigMap'', ''Changes detected in my-app for environment new.'')]"
  using pipeline_status_invariant
     [of "\<lambda>ref env. if Name env = ''prod'' then RenderFailed ''template error''
                    else if Name env = ''dev'' then Rendered ''replicas: 3''
                    else if ref = ''main'' then ChartNotFound else Rendered ''kind: ConfigMap''"
         "\<lambda>baseName headName base head. []"
         "\<lambda>baseName headName base head. if base = head then [] else ''+'' @ head"
         "''my-app''" "''main''" "''feat''"
         "[\<lparr>Name = ''dev'', ValueFiles = [''values.yaml'']\<rparr>,
           \<lparr>Name = ''prod'', ValueFiles = [''values.yaml'', ''prod.yaml'']\<rparr>,
           \<lparr>Name = ''new'', ValueFiles = []\<rparr>]"]
  by (simp add: RunChart_def RunEnvironment_def manifest_of_def error_result_def make_result_def
        classify_def FormatDiffLabel_def)

subsection \<open>Normalising the semantic differ's output\<close>

lemma Contains_sublist: "Contains s substr = sublist substr s"
  by (induction s) (auto simp: sublist_Cons_right)

lemma TrimSpace_Nil: "TrimSpace [] = []"
  by (simp add: TrimSpace_def)

lemma cleanDyffOutput_loop_filter:
  "cleanDyffOutput_loop lines tmpDir cleaned =
     cleaned @ (if cleaned = [] then dropWhile blank_line (filter (keep_line tmpDir) lines)
                else filter (keep_line tmpDir) lines)"
proof (induction lines arbitrary: cleaned)
  case Nil
  show ?case by simp
next
  case (Cons line lines)
  show ?case
  proof (cases "keep_line tmpDir line")
    case False
    then show ?thesis by (auto simp: Cons.IH keep_line_def Let_def)
  next
    case True
    show ?thesis
    proof (cases "cleaned = [] \<and> blank_line line")
      case skip: True
      with True show ?thesis by (simp add: Cons.IH keep_line_def blank_line_def Let_def)
    next
      case keep: False
      with True show ?thesis by (auto simp: Cons.IH keep_line_def blank_line_def Let_def)
    qed
  qed
qed

lemma cleanDyffOutput_lines:
  "cleanDyffOutput output tmpDir =
     Join (dropWhile blank_line (filter (keep_line tmpDir) (Split output (CHR 0x0A)))) ''\<newline>''"
  by (simp add: cleanDyffOutput_def cleanDyffOutput_loop_filter)

lemma count_list_Join:
  "ls \<noteq> [] \<Longrightarrow> \<forall>l \<in> set ls. sep \<notin> set l \<Longrightarrow> count_list (Join ls [sep]) sep = length ls - 1"
proof (induction ls "[sep]" rule: Join.induct)
  case 1
  then show ?case by simp
next
  case (2 x)
  then show ?case by (simp add: count_list_0_iff)
next
  case (3 x y ys)
  then have "count_list x sep = 0" by (simp add: count_list_0_iff)
  with 3 show ?case by (simp add: count_list_append)
qed

lemma genSplit_Join:
  "ls \<noteq> [] \<Longrightarrow> \<forall>l \<in> set ls. sep \<notin> set l \<Longrightarrow> genSplit (length ls - 1) sep (Join ls [sep]) = ls"
proof (induction ls "[sep]" rule: Join.induct)
  case 1
  then show ?case by simp
next
  case (2 x)
  show ?case by simp
next
  case (3 x y ys)
  then have x: "\<forall>c \<in> set x. c \<noteq> sep" by auto
  have tw: "takeWhile (\<lambda>c. c \<noteq> sep) (x @ sep # Join (y # ys) [sep]) = x"
    using x by (simp add: takeWhile_tail)
  have dw: "dropWhile (\<lambda>c. c \<noteq> sep) (x @ sep # Join (y # ys) [sep]) = sep # Join (y # ys) [sep]"
    using x by (simp add: dropWhile_append3)
  have "genSplit (length (y # ys) - 1) sep (Join (y # ys) [sep]) = y # ys"
    using 3 by simp
  then show ?case by (simp add: tw dw)
qed

lemma Split_Join:
  "ls \<noteq> [] \<Longrightarrow> \<forall>l \<in> set ls. sep \<notin> set l \<Longrightarrow> Split (Join ls [sep]) sep = ls"
  using genSplit_Join [of ls sep] by (simp add: Split_def count_list_Join)

lemma genSplit_no_sep:
  "k \<ge> count_list s sep \<Longrightarrow> l \<in> set (genSplit k sep s) \<Longrightarrow> sep \<notin> set l"
proof (induction k arbitrary: s)
  case 0
  then show ?case by (simp add: count_list_0_iff)
next
  case (Suc k)
  show ?case
  proof (cases "sep \<in> set s")
    case False
    with Suc.prems show ?thesis by simp
  next
    case True
    from Suc.prems(2) True
    consider "l = takeWhile (\<lambda>c. c \<noteq> sep) s"
      | "l \<in> set (genSplit k sep (tl (dropWhile (\<lambda>c. c \<noteq> sep) s)))"
      by auto
    then show ?thesis
    proof cases
      case 1
      then show ?thesis by (auto dest: set_takeWhileD)
    next
      case 2
      have "count_list (tl (dropWhile (\<lambda>c. c \<noteq> sep) s)) sep \<le> k"
        using Suc.prems(1) count_list_split_at [OF True] by simp
      from Suc.IH [OF this 2] show ?thesis .
    qed
  qed
qed

lemma Split_no_sep: "l \<in> set (Split s sep) \<Longrightarrow> sep \<notin> set l"
  unfolding Split_def by (rule genSplit_no_sep) simp_all

lemma sublist_across_sep:
  assumes "sublist t (x @ sep # rest)" and "sep \<notin> set t"
  shows "sublist t x \<or> sublist t rest"
proof -
  from assms(1) consider "sublist t x" | "sublist t (sep # rest)"
    | xs1 xs2 where "t = xs1 @ xs2" "suffix xs1 x" "prefix xs2 (sep # rest)"
    unfolding sublist_append by blast
  then show ?thesis
  proof cases
    case 1
    then show ?thesis by simp
  next
    case 2
    then have "prefix t (sep # rest) \<or> sublist t rest" by (simp add: sublist_Cons_right)
    moreover have "t = []" if "prefix t (sep # rest)"
      using that assms(2) by (cases t) auto
    ultimately show ?thesis by auto
  next
    case 3
    have "xs2 = []" using 3(1,3) assms(2) by (cases xs2) auto
    with 3 have "suffix t x" by simp
    then have "sublist t x" by (rule suffix_imp_sublist)
    then show ?thesis by simp
  qed
qed

lemma sublist_Join:
  assumes "sublist t (Join ls [sep])" and "sep \<notin> set t" and "t \<noteq> []"
  shows "\<exists>l \<in> set ls. sublist t l"
  using assms
proof (induction ls "[sep]" rule: Join.induct)
  case 1
  then show ?case by simp
next
  case (2 x)
  then show ?case by simp
next
  case (3 x y ys)
  from 3(2) have "sublist t (x @ sep # Join (y # ys) [sep])" by simp
  from sublist_across_sep [OF this 3(3)] show ?case
  proof
    assume "sublist t x"
    then show ?thesis by simp
  next
    assume "sublist t (Join (y # ys) [sep])"
    from 3(1) [OF this 3(3) 3(4)] show ?thesis by auto
  qed
qed

lemma takeWhile_Join:
  "ls \<noteq> [] \<Longrightarrow> sep \<notin> set (hd ls) \<Longrightarrow> takeWhile (\<lambda>c. c \<noteq> sep) (Join ls [sep]) = hd ls"
proof (induction ls "[sep]" rule: Join.induct)
  case 1
  then show ?case by simp
next
  case (2 x)
  then show ?case by (simp add: takeWhile_no_sep)
next
  case (3 x y ys)
  then have "\<forall>c \<in> set x. c \<noteq> sep" by auto
  then show ?case by (simp add: takeWhile_tail)
qed

lemma kept_lines_clean:
  assumes "l \<in> set (dropWhile blank_line (filter (keep_line tmpDir) (Split output (CHR 0x0A))))"
  shows "\<not> Contains l tmpDir" and "\<not> is_banner_line l (TrimSpace l)" and "CHR 0x0A \<notin> set l"
proof -
  from assms have l: "l \<in> set (filter (keep_line tmpDir) (Split output (CHR 0x0A)))"
    by (rule set_dropWhileD)
  then show "\<not> Contains l tmpDir" and "\<not> is_banner_line l (TrimSpace l)"
    by (simp_all add: keep_line_def)
  from l have "l \<in> set (Split output (CHR 0x0A))" by simp
  then show "CHR 0x0A \<notin> set l" by (rule Split_no_sep)
qed

text \<open>
  Claim C8, amended. \<open>cleanDyffOutput\<close> returns the lines of the output, joined by
  newlines, after removing every line that contains the temp-directory path, every
  banner line, and then all leading blank lines. So no line it keeps contains the path
  or is a banner line, a non-empty result has exactly the kept lines as its lines, the
  result is empty or its first line is not blank, and, provided the temp-directory path
  is non-empty and has no line break in it, the result does not contain the path. When
  the cleaned output is whitespace-only, \<open>ComputeDiff\<close> returns the empty string.
\<close>

theorem cleanDyffOutput_normalized:
  "cleanDyffOutput output tmpDir =
     Join (dropWhile blank_line (filter (keep_line tmpDir) (Split output (CHR 0x0A)))) ''\<newline>''
   \<and> (\<forall>l \<in> set (dropWhile blank_line (filter (keep_line tmpDir) (Split output (CHR 0x0A)))).
         \<not> Contains l tmpDir \<and> \<not> is_banner_line l (TrimSpace l) \<and> CHR 0x0A \<notin> set l)
   \<and> (cleanDyffOutput output tmpDir \<noteq> [] \<longrightarrow>
        Split (cleanDyffOutput output tmpDir) (CHR 0x0A) =
          dropWhile blank_line (filter (keep_line tmpDir) (Split output (CHR 0x0A))))
   \<and> (cleanDyffOutput output tmpDir = [] \<or>
        TrimSpace (takeWhile (\<lambda>c. c \<noteq> CHR 0x0A) (cleanDyffOutput output tmpDir)) \<noteq> [])
   \<and> (tmpDir \<noteq> [] \<and> CHR 0x0A \<notin> set tmpDir \<longrightarrow> \<not> Contains (cleanDyffOutput output tmpDir) tmpDir)
   \<and> (MkdirTemp run = Some tmpDir \<and> TrimSpace (cleanDyffOutput (Stdout run) tmpDir) = [] \<longrightarrow>
        ComputeDiff run baseName headName = [])"
proof -
  let ?kept = "dropWhile blank_line (filter (keep_line tmpDir) (Split output (CHR 0x0A)))"
  let ?res = "cleanDyffOutput output tmpDir"
  have res: "?res = Join ?kept [CHR 0x0A]"
    by (simp add: cleanDyffOutput_lines)
  have clean: "\<forall>l \<in> set ?kept. \<not> Contains l tmpDir \<and> \<not> is_banner_line l (TrimSpace l) \<and> CHR 0x0A \<notin> set l"
    using kept_lines_clean by blast
  have lines: "Split ?res (CHR 0x0A) = ?kept" if "?res \<noteq> []"
  proof -
    have "?kept \<noteq> []"
    proof
      assume e: "?kept = []"
      have "Join ?kept [CHR 0x0A] = []" unfolding e by simp
      with that res show False by simp
    qed
    then show ?thesis unfolding res using clean by (intro Split_Join) auto
  qed
  have first: "?res = [] \<or> TrimSpace (takeWhile (\<lambda>c. c \<noteq> CHR 0x0A) ?res) \<noteq> []"
  proof (cases "?kept = []")
    case True
    with res show ?thesis by simp
  next
    case False
    then have "\<not> blank_line (hd ?kept)" by (rule hd_dropWhile)
    moreover have "hd ?kept \<in> set ?kept" using False by (rule hd_in_set)
    then have "CHR 0x0A \<notin> set (hd ?kept)" using clean by blast
    then have "takeWhile (\<lambda>c. c \<noteq> CHR 0x0A) ?res = hd ?kept"
      unfolding res using False by (intro takeWhile_Join)
    ultimately show ?thesis by (simp add: blank_line_def)
  qed
  have path: "\<not> Contains ?res tmpDir" if "tmpDir \<noteq> [] \<and> CHR 0x0A \<notin> set tmpDir"
  proof
    assume "Contains ?res tmpDir"
    then have "sublist tmpDir (Join ?kept [CHR 0x0A])" by (simp add: Contains_sublist res)
    from sublist_Join [OF this] that obtain l where "l \<in> set ?kept" "sublist tmpDir l" by blast
    with clean show False by (simp add: Contains_sublist)
  qed
  have empty: "ComputeDiff run baseName headName = []"
    if "MkdirTemp run = Some tmpDir \<and> TrimSpace (cleanDyffOutput (Stdout run) tmpDir) = []"
    using that by (simp add: ComputeDiff_def Let_def split: option.splits)
  from res clean lines first path empty show ?thesis by (simp add: cleanDyffOutput_lines)
qed

text \<open>
  The sentence "the returned string never contains the temp-directory path" of claim C8
  does not hold for every path: the filter looks at one line at a time, so a path that
  itself contains a line break is not found on any line and stays in the output.
\<close>

theorem cleanDyffOutput_split_path_counterexample:
  "Contains (cleanDyffOutput ''between /tmp/a\<newline>b/base.yaml'' ''/tmp/a\<newline>b'') ''/tmp/a\<newline>b''"
  by code_simp

theorem cleanDyffOutput_normalized_witness:
  "cleanDyffOutput
      ''        |___/\<newline>\<newline>returned one difference\<newline>/tmp/d1/base.yaml\<newline> \<newline>spec.replicas\<newline>  - 3\<newline>''
      ''/tmp/d1''
     = ''spec.replicas\<newline>  - 3\<newline>''
   \<and> (''/tmp/d1'' \<noteq> [] \<and> CHR 0x0A \<notin> set ''/tmp/d1'')
   \<and> \<not> Contains (cleanDyffOutput
      ''        |___/\<newline>\<newline>returned one difference\<newline>/tmp/d1/base.yaml\<newline> \<newline>spec.replicas\<newline>  - 3\<newline>''
      ''/tmp/d1'') ''/tmp/d1''
   \<and> (MkdirTemp \<lparr> LookPath = Some ''/usr/bin/dyff'', MkdirTemp = Some ''/tmp/d1'', WriteBase = True,
                    WriteHead = True, Stdout = ''        |___/\<newline>\<newline>returned no differences\<newline> \<newline>'',
                    Stderr = [] \<rparr> = Some ''/tmp/d1''
      \<and> TrimSpace (cleanDyffOutput ''        |___/\<newline>\<newline>returned no differences\<newline> \<newline>'' ''/tmp/d1'') = [])
   \<and> ComputeDiff \<lparr> LookPath = Some ''/usr/bin/dyff'', MkdirTemp = Some ''/tmp/d1'', WriteBase = True,
                    WriteHead = True, Stdout = ''        |___/\<newline>\<newline>returned no differences\<newline> \<newline>'',
                    Stderr = [] \<rparr> ''my-app/prod (main)'' ''my-app/prod (feat)'' = []"
proof -
  let ?out = "''        |___/\<newline>\<newline>returned one difference\<newline>/tmp/d1/base.yaml\<newline> \<newline>spec.replicas\<newline>  - 3\<newline>''"
  let ?run = "\<lparr> LookPath = Some ''/usr/bin/dyff'', MkdirTemp = Some ''/tmp/d1'', WriteBase = True,
                    WriteHead = True, Stdout = ''        |___/\<newline>\<newline>returned no differences\<newline> \<newline>'',
                    Stderr = [] \<rparr>"
  have result: "cleanDyffOutput ?out ''/tmp/d1'' = ''spec.replicas\<newline>  - 3\<newline>''"
    by code_simp
  have path: "''/tmp/d1'' \<noteq> [] \<and> CHR 0x0A \<notin> set ''/tmp/d1''"
    by simp
  have blank: "MkdirTemp ?run = Some ''/tmp/d1'' \<and> TrimSpace (cleanDyffOutput (Stdout ?run) ''/tmp/d1'') = []"
    by code_simp
  note inst = cleanDyffOutput_normalized
      [of ?out "''/tmp/d1''" ?run "''my-app/prod (main)''" "''my-app/prod (feat)''"]
  from inst path have absent: "\<not> Contains (cleanDyffOutput ?out ''/tmp/d1'') ''/tmp/d1''"
    by blast
  from inst blank have empty: "ComputeDiff ?run ''my-app/prod (main)'' ''my-app/prod (feat)'' = []"
    by blast
  from blank have blank': "MkdirTemp ?run = Some ''/tmp/d1''
      \<and> TrimSpace (cleanDyffOutput ''        |___/\<newline>\<newline>returned no differences\<newline> \<newline>'' ''/tmp/d1'') = []"
    by simp
  from result path absent blank' empty show ?thesis by blast
qed

end
